theory Spec2Isabelle
  imports Main "HOL-Library.Sublist" "HOL-Library.Word"
begin

section \<open>Markdown-translator-go: the file-processing pipeline\<close>

text \<open>
  A shallow embedding of the Go packages \<^verbatim>\<open>utils\<close> (text.go, io.go), \<^verbatim>\<open>discovery\<close>
  (finder.go), \<^verbatim>\<open>processor\<close> (the worker pool) and of the last step of \<^verbatim>\<open>main\<close>.
  Go strings are byte sequences, so a Go \<^verbatim>\<open>string\<close> is a \<^typ>\<open>string\<close> (a list of
  8-bit characters) and \<^verbatim>\<open>len\<close> is \<^const>\<open>length\<close>. Calls to \<^verbatim>\<open>log.Printf\<close> only write
  to the log and are left out. Functions of the Go standard library that the code calls
  are modelled next to the function that calls them, each with a note on what is kept.
\<close>

subsection \<open>Errors\<close>

text \<open>
  The operating system's error numbers that the code tells apart: \<^verbatim>\<open>os.IsNotExist\<close>
  holds for \<open>ENOENT\<close>, \<^verbatim>\<open>os.IsPermission\<close> for \<open>EACCES\<close> and \<open>EPERM\<close>.
\<close>

datatype errno = ENOENT | EACCES | EPERM | ENOTDIR | EISDIR | ENOSPC | EIO

definition IsNotExist :: "errno \<Rightarrow> bool" where
  "IsNotExist e = (e = ENOENT)"

definition IsPermission :: "errno \<Rightarrow> bool" where
  "IsPermission e = (e = EACCES \<or> e = EPERM)"

type_synonym path = "string list"

text \<open>
  The error values the code builds. \<open>errorString msg\<close> is the error of \<^verbatim>\<open>errors.New\<close>,
  whose \<^verbatim>\<open>Error()\<close> is \<open>msg\<close>. The other constructors are the \<^verbatim>\<open>%w\<close> wrappers of
  io.go and finder.go, named after their message, and the backend's failure.
\<close>

datatype error =
    OSError errno
  | errorString string
  | ReadFailed path error
  | StatTargetFailed path error
  | MkdirFailed path error
  | WriteFailed path error
  | SourcePermission path error
  | DiscoveryFailed error
  | BackendFailed string

subsection \<open>fmt.Errorf with no operands\<close>

text \<open>
  \<^verbatim>\<open>fmt.Errorf(format)\<close> without operands renders the format with \<^verbatim>\<open>doPrintf\<close> and
  returns \<^verbatim>\<open>errors.New\<close> of the result. The model follows \<^verbatim>\<open>doPrintf\<close> of fmt/print.go
  for an empty operand list: text up to a \<^verbatim>\<open>%\<close> is copied; after a \<^verbatim>\<open>%\<close> come the
  flags, an argument index in brackets, a width, a precision and the verb. With no
  operand an index is always bad, \<^verbatim>\<open>*\<close> finds no width or precision, and a verb other
  than \<^verbatim>\<open>%\<close> finds its operand missing. The printer's state is the format still to
  read, the output of the verb so far, \<^verbatim>\<open>goodArgNum\<close> and \<^verbatim>\<open>afterIndex\<close>.
\<close>

definition is_flag :: "char \<Rightarrow> bool" where
  "is_flag c = (c \<in> set ''#0+- '')"

definition is_digit :: "char \<Rightarrow> bool" where
  "is_digit c = (48 \<le> (of_char c :: nat) \<and> (of_char c :: nat) \<le> 57)"

text \<open>
  \<^verbatim>\<open>parsenum\<close>: the digits at the head, with the number read so far; the result tells
  whether a number was read and what follows it. A number that has passed a million
  when another digit comes is refused and the position moves to the end.
\<close>

fun parsenum :: "nat \<Rightarrow> bool \<Rightarrow> string \<Rightarrow> bool \<times> string" where
  "parsenum num isnum [] = (isnum, [])"
| "parsenum num isnum (c # cs) =
     (if is_digit c then
        (if 1000000 < num then (False, [])
         else parsenum (num * 10 + (of_char c - 48)) True cs)
      else (isnum, c # cs))"

text \<open>
  \<^verbatim>\<open>parseArgNumber\<close> on a format that starts with \<^verbatim>\<open>[\<close>: the number of bytes to skip
  and whether a well-formed index was read.
\<close>

definition parseArgNumber :: "string \<Rightarrow> nat \<times> bool" where
  "parseArgNumber format =
     (if length format < 3 then (1, False)
      else
        (let inner = takeWhile (\<lambda>c. c \<noteq> CHR '']'') (tl format) in
         if length inner < length (tl format) then
           (let r = parsenum 0 False inner in
            if \<not> fst r \<or> snd r \<noteq> [] then (length inner + 2, False)
            else (length inner + 2, True))
         else (1, False)))"

record printer =
  rest :: string
  out :: string
  goodArgNum :: bool
  afterIndex :: bool

definition argNumber :: "printer \<Rightarrow> printer" where
  \<comment> \<open>with no operand the index is never in range: \<^verbatim>\<open>goodArgNum\<close> becomes false\<close>
  "argNumber p =
     (case rest p of
        [] \<Rightarrow> p\<lparr>afterIndex := False\<rparr>
      | c # cs \<Rightarrow>
          if c \<noteq> CHR ''['' then p\<lparr>afterIndex := False\<rparr>
          else
            (let r = parseArgNumber (rest p) in
             p\<lparr>rest := drop (fst r) (rest p), goodArgNum := False, afterIndex := snd r\<rparr>))"

definition width :: "printer \<Rightarrow> printer" where
  "width p =
     (let num = (let r = parsenum 0 False (rest p) in
                 p\<lparr>rest := snd r, goodArgNum := goodArgNum p \<and> \<not> (afterIndex p \<and> fst r)\<rparr>)
      in case rest p of
           [] \<Rightarrow> num
         | c # cs \<Rightarrow>
             if c = CHR ''*''
             then p\<lparr>rest := cs, out := out p @ ''%!(BADWIDTH)'', afterIndex := False\<rparr>
             else num)"

definition precision :: "printer \<Rightarrow> printer" where
  "precision p =
     (case rest p of
        [] \<Rightarrow> p
      | c # cs \<Rightarrow>
          if c \<noteq> CHR ''.'' then p
          else
            (let p1 = argNumber (p\<lparr>rest := cs, goodArgNum := goodArgNum p \<and> \<not> afterIndex p\<rparr>)
             in case rest p1 of
                  [] \<Rightarrow> p1
                | c1 # cs1 \<Rightarrow>
                    if c1 = CHR ''*''
                    then p1\<lparr>rest := cs1, out := out p1 @ ''%!(BADPREC)'', afterIndex := False\<rparr>
                    else p1\<lparr>rest := snd (parsenum 0 False (rest p1))\<rparr>))"

text \<open>
  The verb is one rune. \<^verbatim>\<open>utf8.DecodeRuneInString\<close> gives the size of a well-formed
  UTF-8 sequence at the head; bytes that are not one decode to \<^verbatim>\<open>RuneError\<close> of size 1,
  which is written back as the three bytes of U+FFFD.
\<close>

definition acceptRange :: "nat \<Rightarrow> (nat \<times> nat \<times> nat) option" where
  \<comment> \<open>for the first byte: the size of the sequence and the bounds of the second byte\<close>
  "acceptRange b =
     (if 0xC2 \<le> b \<and> b \<le> 0xDF then Some (2, 0x80, 0xBF)
      else if b = 0xE0 then Some (3, 0xA0, 0xBF)
      else if b = 0xED then Some (3, 0x80, 0x9F)
      else if 0xE1 \<le> b \<and> b \<le> 0xEF then Some (3, 0x80, 0xBF)
      else if b = 0xF0 then Some (4, 0x90, 0xBF)
      else if 0xF1 \<le> b \<and> b \<le> 0xF3 then Some (4, 0x80, 0xBF)
      else if b = 0xF4 then Some (4, 0x80, 0x8F)
      else None)"

definition continuation :: "char \<Rightarrow> bool" where
  "continuation c = (0x80 \<le> (of_char c :: nat) \<and> (of_char c :: nat) \<le> 0xBF)"

definition DecodeRune :: "string \<Rightarrow> string \<times> nat" where
  \<comment> \<open>the bytes that \<^verbatim>\<open>writeRune\<close> writes for the rune at the head, and its size\<close>
  "DecodeRune s =
     (let RuneError = [CHR 0xEF, CHR 0xBF, CHR 0xBD] in
      case s of
        [] \<Rightarrow> (RuneError, 0)
      | c # cs \<Rightarrow>
          if (of_char c :: nat) < 0x80 then ([c], 1)
          else
            (case acceptRange (of_char c) of
               None \<Rightarrow> (RuneError, 1)
             | Some (sz, lo, hi) \<Rightarrow>
                 if length s < sz then (RuneError, 1)
                 else if (of_char (s ! 1) :: nat) < lo \<or> hi < (of_char (s ! 1) :: nat)
                 then (RuneError, 1)
                 else if sz \<le> 2 then (take 2 s, 2)
                 else if \<not> continuation (s ! 2) then (RuneError, 1)
                 else if sz \<le> 3 then (take 3 s, 3)
                 else if \<not> continuation (s ! 3) then (RuneError, 1)
                 else (take 4 s, 4)))"

text \<open>One verb, from the byte after the \<^verbatim>\<open>%\<close>: what is written for it and the format
  that remains.\<close>

definition verb :: "string \<Rightarrow> string \<times> string" where
  "verb format =
     (let p0 = \<lparr>rest = dropWhile is_flag format, out = [], goodArgNum = True,
                afterIndex = False\<rparr>;
          p1 = precision (width (argNumber p0));
          p2 = (if \<not> afterIndex p1 then argNumber p1 else p1)
      in if rest p2 = [] then (out p2 @ ''%!(NOVERB)'', [])
         else
           (let r = DecodeRune (rest p2) in
            (out p2 @
               (if fst r = ''%'' then ''%''
                else if \<not> goodArgNum p2 then ''%!'' @ fst r @ ''(BADINDEX)''
                else ''%!'' @ fst r @ ''(MISSING)''),
             drop (snd r) (rest p2))))"

lemma parsenum_length: "length (snd (parsenum num isnum s)) \<le> length s"
  by (induction s arbitrary: num isnum) (auto intro: le_SucI)

lemma argNumber_length: "length (rest (argNumber p)) \<le> length (rest p)"
  by (simp add: argNumber_def Let_def split: list.splits)

lemma width_length: "length (rest (width p)) \<le> length (rest p)"
  using parsenum_length [of 0 False "rest p"]
  by (auto simp: width_def Let_def split: list.splits)

lemma precision_length: "length (rest (precision p)) \<le> length (rest p)"
proof (cases "rest p")
  case Nil
  then show ?thesis by (simp add: precision_def)
next
  case (Cons c cs)
  let ?p1 = "argNumber (p\<lparr>rest := cs, goodArgNum := goodArgNum p \<and> \<not> afterIndex p\<rparr>)"
  have a: "length (rest ?p1) \<le> length cs"
    using argNumber_length [of "p\<lparr>rest := cs, goodArgNum := goodArgNum p \<and> \<not> afterIndex p\<rparr>"]
    by simp
  have b: "length (snd (parsenum 0 False (rest ?p1))) \<le> length (rest ?p1)"
    by (rule parsenum_length)
  show ?thesis
    using a b Cons by (auto simp: precision_def Let_def split: list.splits)
qed

lemma verb_length: "length (snd (verb format)) \<le> length format"
proof -
  define p0 where "p0 = \<lparr>rest = dropWhile is_flag format, out = [], goodArgNum = True,
      afterIndex = False\<rparr>"
  define p1 where "p1 = precision (width (argNumber p0))"
  define p2 where "p2 = (if \<not> afterIndex p1 then argNumber p1 else p1)"
  have "length (rest p0) \<le> length format"
    by (simp add: p0_def length_dropWhile_le)
  moreover have "length (rest p1) \<le> length (rest p0)"
    unfolding p1_def
    using precision_length [of "width (argNumber p0)"] width_length [of "argNumber p0"]
      argNumber_length [of p0]
    by linarith
  moreover have "length (rest p2) \<le> length (rest p1)"
    using argNumber_length [of p1] by (simp add: p2_def)
  ultimately have le: "length (rest p2) \<le> length format" by linarith
  have "snd (verb format) =
      (if rest p2 = [] then [] else drop (snd (DecodeRune (rest p2))) (rest p2))"
    by (simp add: verb_def Let_def p0_def p1_def p2_def)
  moreover have "length (drop (snd (DecodeRune (rest p2))) (rest p2)) \<le> length (rest p2)"
    by simp
  ultimately show ?thesis using le by (auto simp del: length_drop)
qed

function doPrintf :: "string \<Rightarrow> string" where
  "doPrintf [] = []"
| "doPrintf (c # format) =
     (if c \<noteq> CHR ''%'' then c # doPrintf format
      else fst (verb format) @ doPrintf (snd (verb format)))"
  by pat_completeness auto
termination
proof (relation "measure length")
  show "wf (measure length)" by simp
next
  fix c :: char and format :: string
  show "(format, c # format) \<in> measure length" by simp
next
  fix c :: char and format :: string
  show "(snd (verb format), c # format) \<in> measure length"
    using verb_length [of format] by simp
qed

definition Errorf :: "string \<Rightarrow> error" where
  \<comment> \<open>\<^verbatim>\<open>fmt.Errorf(format)\<close> with no operand\<close>
  "Errorf format = errorString (doPrintf format)"

subsection \<open>utils/text.go: extraction of the translated text\<close>

text \<open>
  \<^verbatim>\<open>strings.TrimSpace\<close> removes the leading and then the trailing runes that are Unicode
  white space. On the bytes of a string these are exactly the UTF-8 encodings below
  (U+0009 to U+000D, U+0020, U+0085, U+00A0, U+1680, U+2000 to U+200A, U+2028, U+2029,
  U+202F, U+205F, U+3000): a leading rune is white space iff one of them is a prefix, and
  the last rune is white space iff one of them is a suffix.
\<close>

definition space_runes :: "string list" where
  "space_runes =
    [[CHR 0x09], [CHR 0x0A], [CHR 0x0B], [CHR 0x0C], [CHR 0x0D], [CHR 0x20],
     [CHR 0xC2, CHR 0x85], [CHR 0xC2, CHR 0xA0],
     [CHR 0xE1, CHR 0x9A, CHR 0x80],
     [CHR 0xE2, CHR 0x80, CHR 0x80], [CHR 0xE2, CHR 0x80, CHR 0x81],
     [CHR 0xE2, CHR 0x80, CHR 0x82], [CHR 0xE2, CHR 0x80, CHR 0x83],
     [CHR 0xE2, CHR 0x80, CHR 0x84], [CHR 0xE2, CHR 0x80, CHR 0x85],
     [CHR 0xE2, CHR 0x80, CHR 0x86], [CHR 0xE2, CHR 0x80, CHR 0x87],
     [CHR 0xE2, CHR 0x80, CHR 0x88], [CHR 0xE2, CHR 0x80, CHR 0x89],
     [CHR 0xE2, CHR 0x80, CHR 0x8A],
     [CHR 0xE2, CHR 0x80, CHR 0xA8], [CHR 0xE2, CHR 0x80, CHR 0xA9],
     [CHR 0xE2, CHR 0x80, CHR 0xAF],
     [CHR 0xE2, CHR 0x81, CHR 0x9F],
     [CHR 0xE3, CHR 0x80, CHR 0x80]]"

definition leading_space :: "string \<Rightarrow> nat" where
  \<comment> \<open>the width in bytes of a white-space rune at the head of the string, 0 if none\<close>
  "leading_space s =
     (case find (\<lambda>w. prefix w s) space_runes of None \<Rightarrow> 0 | Some w \<Rightarrow> length w)"

definition trailing_space :: "string \<Rightarrow> nat" where
  \<comment> \<open>the width in bytes of a white-space rune at the end of the string, 0 if none\<close>
  "trailing_space s =
     (case find (\<lambda>w. suffix w s) space_runes of None \<Rightarrow> 0 | Some w \<Rightarrow> length w)"

lemma leading_space_le: "leading_space s \<le> length s"
  by (auto simp: leading_space_def prefix_length_le split: option.splits
      dest!: find_Some_iff[THEN iffD1])

lemma trailing_space_le: "trailing_space s \<le> length s"
  by (auto simp: trailing_space_def suffix_length_le split: option.splits
      dest!: find_Some_iff[THEN iffD1])

function TrimLeft :: "string \<Rightarrow> string" where
  "TrimLeft s =
     (let n = leading_space s in if n = 0 then s else TrimLeft (drop n s))"
  by pat_completeness auto
termination
proof (relation "measure length")
  show "wf (measure length)" by simp
next
  fix s :: string and n
  assume "n = leading_space s" and "n \<noteq> 0"
  then have "0 < n" and "n \<le> length s"
    using leading_space_le [of s] by auto
  then show "(drop n s, s) \<in> measure length" by simp
qed

function TrimRight :: "string \<Rightarrow> string" where
  "TrimRight s =
     (let n = trailing_space s in
      if n = 0 then s else TrimRight (take (length s - n) s))"
  by pat_completeness auto
termination
proof (relation "measure length")
  show "wf (measure length)" by simp
next
  fix s :: string and n
  assume "n = trailing_space s" and "n \<noteq> 0"
  then have "0 < n" and "n \<le> length s"
    using trailing_space_le [of s] by auto
  then show "(take (length s - n) s, s) \<in> measure length" by simp
qed

declare TrimLeft.simps [simp del] TrimRight.simps [simp del]

definition TrimSpace :: "string \<Rightarrow> string" where
  "TrimSpace s = TrimRight (TrimLeft s)"

text \<open>
  The regular expression \<^verbatim>\<open>(?s)<translate>(.*?)</translate>\<close>. \<open>lazy_until\<close> is the
  lazy \<^verbatim>\<open>(.*?)\<close> followed by a literal: the shortest text before an occurrence of the
  literal. \<open>match_at\<close> is a match that starts at the head of the string, and
  \<open>FindStringSubmatch\<close> takes the leftmost position with a match, as Go's
  \<^verbatim>\<open>regexp\<close> does. The result is the list of the whole match and the group, or the
  empty list (Go's \<^verbatim>\<open>nil\<close>) when nothing matches.
\<close>

definition openTag :: string where
  "openTag = ''<translate>''"

definition closeTag :: string where
  "closeTag = ''</translate>''"

fun lazy_until :: "string \<Rightarrow> string \<Rightarrow> string option" where
  "lazy_until lit [] = (if lit = [] then Some [] else None)"
| "lazy_until lit (c # cs) =
     (if prefix lit (c # cs) then Some []
      else map_option ((#) c) (lazy_until lit cs))"

definition match_at :: "string \<Rightarrow> string list" where
  "match_at s =
     (if prefix openTag s then
        (case lazy_until closeTag (drop (length openTag) s) of
           None \<Rightarrow> []
         | Some g \<Rightarrow> [openTag @ g @ closeTag, g])
      else [])"

fun FindStringSubmatch :: "string \<Rightarrow> string list" where
  "FindStringSubmatch [] = match_at []"
| "FindStringSubmatch (c # cs) =
     (case match_at (c # cs) of [] \<Rightarrow> FindStringSubmatch cs | m # ms \<Rightarrow> m # ms)"

text \<open>
  The text of the error message before the preview, as the bytes of the source's UTF-8
  string literal (it ends in \<^verbatim>\<open>(...300...): \<close>).
\<close>

definition errMsgText :: string where
  "errMsgText =
    [CHR 0xE6, CHR 0x97, CHR 0xA0, CHR 0xE6, CHR 0xB3, CHR 0x95, CHR 0xE5, CHR 0x9C,
     CHR 0xA8, CHR 0x20, CHR 0x4C, CHR 0x4C, CHR 0x4D, CHR 0x20, CHR 0xE8, CHR 0xBE,
     CHR 0x93, CHR 0xE5, CHR 0x87, CHR 0xBA, CHR 0xE4, CHR 0xB8, CHR 0xAD, CHR 0xE6,
     CHR 0x89, CHR 0xBE, CHR 0xE5, CHR 0x88, CHR 0xB0, CHR 0x20, CHR 0x3C, CHR 0x74,
     CHR 0x72, CHR 0x61, CHR 0x6E, CHR 0x73, CHR 0x6C, CHR 0x61, CHR 0x74, CHR 0x65,
     CHR 0x3E, CHR 0x2E, CHR 0x2E, CHR 0x2E, CHR 0x3C, CHR 0x2F, CHR 0x74, CHR 0x72,
     CHR 0x61, CHR 0x6E, CHR 0x73, CHR 0x6C, CHR 0x61, CHR 0x74, CHR 0x65, CHR 0x3E,
     CHR 0x20, CHR 0xE6, CHR 0xA0, CHR 0x87, CHR 0xE7, CHR 0xAD, CHR 0xBE, CHR 0xE3,
     CHR 0x80, CHR 0x82, CHR 0xE8, CHR 0xBE, CHR 0x93, CHR 0xE5, CHR 0x87, CHR 0xBA,
     CHR 0xE9, CHR 0xA2, CHR 0x84, CHR 0xE8, CHR 0xA7, CHR 0x88, CHR 0x20, CHR 0x28,
     CHR 0xE6, CHR 0x9C, CHR 0x80, CHR 0xE5, CHR 0xA4, CHR 0x9A, CHR 0x33, CHR 0x30,
     CHR 0x30, CHR 0xE5, CHR 0xAD, CHR 0x97, CHR 0xE7, CHR 0xAC, CHR 0xA6, CHR 0x29,
     CHR 0x3A, CHR 0x20]"

definition ExtractTranslation :: "string \<Rightarrow> error + string" where
  "ExtractTranslation rawLLMOutput =
     (let matches = FindStringSubmatch rawLLMOutput in
      if length matches < 2 then
        (let trimmedOutput = TrimSpace rawLLMOutput;
             matches = FindStringSubmatch trimmedOutput in
         if length matches < 2 then
           (let preview =
                  (if length rawLLMOutput > 300 then take 300 rawLLMOutput @ ''...''
                   else rawLLMOutput);
                errMsg = errMsgText @ preview
            in Inl (Errorf errMsg))
         else Inr (TrimSpace (matches ! 1)))
      else Inr (TrimSpace (matches ! 1)))"

text \<open>
  The single-attempt extraction that the retry is compared with: the match is tried once,
  on the raw output, and a failure is reported at once.
\<close>

definition ExtractTranslation_once :: "string \<Rightarrow> error + string" where
  "ExtractTranslation_once rawLLMOutput =
     (let matches = FindStringSubmatch rawLLMOutput in
      if length matches < 2 then
        (let preview =
               (if length rawLLMOutput > 300 then take 300 rawLLMOutput @ ''...''
                else rawLLMOutput);
             errMsg = errMsgText @ preview
         in Inl (Errorf errMsg))
      else Inr (TrimSpace (matches ! 1)))"

text \<open>A string holds a marker pair when an opening marker is followed, anywhere
  later, by a closing marker.\<close>

definition has_marker_pair :: "string \<Rightarrow> bool" where
  "has_marker_pair s = (\<exists>a b c. s = a @ openTag @ b @ closeTag @ c)"

subsection \<open>The file system and the backend, as the pipeline sees them\<close>

text \<open>
  A path is the list of its components, so \<^verbatim>\<open>filepath.Join\<close> is \<open>@\<close> and
  \<^verbatim>\<open>filepath.Dir\<close> is \<^const>\<open>butlast\<close>. The world holds the nodes of the file system,
  the failures that the nodes do not explain (a permission, an I/O error, a full disk),
  fixed for a run, and the trace of the calls made so far to the operating system and to
  the backend, oldest first. A call that fails changes no node. A path that runs through a
  regular file cannot be resolved: the call fails with \<open>ENOTDIR\<close>.
\<close>

datatype node = File string | Dir

datatype syscall = OpStat | OpRead | OpMkdirAll | OpWrite

datatype fault = Denied | NotPermitted | IOFailure | NoSpace

fun errno_of :: "fault \<Rightarrow> errno" where
  "errno_of Denied = EACCES"
| "errno_of NotPermitted = EPERM"
| "errno_of IOFailure = EIO"
| "errno_of NoSpace = ENOSPC"

datatype event =
    EvStat path
  | EvRead path
  | EvMkdirAll path
  | EvWrite path string
  | EvTranslate string

record world =
  nodes :: "path \<rightharpoonup> node"
  faults :: "syscall \<Rightarrow> path \<Rightarrow> fault option"
  trace :: "event list"

definition emit :: "event \<Rightarrow> world \<Rightarrow> world" where
  "emit e w = w\<lparr>trace := trace w @ [e]\<rparr>"

definition Join :: "path \<Rightarrow> path \<Rightarrow> path" where
  "Join dir rel = dir @ rel"

definition is_file :: "world \<Rightarrow> path \<Rightarrow> bool" where
  "is_file w p = (case nodes w p of Some (File c) \<Rightarrow> True | _ \<Rightarrow> False)"

definition below_file :: "world \<Rightarrow> path \<Rightarrow> bool" where
  \<comment> \<open>a proper prefix of the path is a regular file\<close>
  "below_file w p = list_ex (\<lambda>q. q \<noteq> p \<and> is_file w q) (prefixes p)"

definition os_Stat :: "path \<Rightarrow> world \<Rightarrow> errno option \<times> world" where
  \<comment> \<open>\<^verbatim>\<open>os.Stat\<close>: the error, \<open>None\<close> for \<^verbatim>\<open>nil\<close>; it succeeds on a file and on a directory\<close>
  "os_Stat p w =
     ((case faults w OpStat p of
         Some f \<Rightarrow> Some (errno_of f)
       | None \<Rightarrow>
           if below_file w p then Some ENOTDIR
           else (case nodes w p of None \<Rightarrow> Some ENOENT | Some n \<Rightarrow> None)),
      emit (EvStat p) w)"

definition os_ReadFile :: "path \<Rightarrow> world \<Rightarrow> (errno + string) \<times> world" where
  "os_ReadFile p w =
     ((case faults w OpRead p of
         Some f \<Rightarrow> Inl (errno_of f)
       | None \<Rightarrow>
           if below_file w p then Inl ENOTDIR
           else
             (case nodes w p of
                None \<Rightarrow> Inl ENOENT
              | Some Dir \<Rightarrow> Inl EISDIR
              | Some (File content) \<Rightarrow> Inr content)),
      emit (EvRead p) w)"

definition os_MkdirAll :: "path \<Rightarrow> world \<Rightarrow> errno option \<times> world" where
  \<comment> \<open>\<^verbatim>\<open>os.MkdirAll\<close>: every prefix of the path becomes a directory, unless one is a file\<close>
  "os_MkdirAll d w =
     (let w1 = emit (EvMkdirAll d) w in
      case faults w OpMkdirAll d of
        Some f \<Rightarrow> (Some (errno_of f), w1)
      | None \<Rightarrow>
          if list_ex (is_file w) (prefixes d) then (Some ENOTDIR, w1)
          else (None, w1\<lparr>nodes := (\<lambda>q. if prefix q d then Some Dir else nodes w q)\<rparr>))"

definition os_WriteFile :: "path \<Rightarrow> string \<Rightarrow> world \<Rightarrow> errno option \<times> world" where
  \<comment> \<open>\<^verbatim>\<open>os.WriteFile\<close>: creates the file or replaces its whole content; the parent must
     be a directory\<close>
  "os_WriteFile p content w =
     (let w1 = emit (EvWrite p content) w in
      case faults w OpWrite p of
        Some f \<Rightarrow> (Some (errno_of f), w1)
      | None \<Rightarrow>
          if below_file w p then (Some ENOTDIR, w1)
          else
            (case nodes w p of
               Some Dir \<Rightarrow> (Some EISDIR, w1)
             | _ \<Rightarrow>
                (case nodes w (butlast p) of
                   None \<Rightarrow> (Some ENOENT, w1)
                 | Some (File c) \<Rightarrow> (Some ENOTDIR, w1)
                 | Some Dir \<Rightarrow> (None, w1\<lparr>nodes := (nodes w)(p \<mapsto> File content)\<rparr>))))"

text \<open>
  The backend: \<^verbatim>\<open>Translate(ctx, content)\<close> returns the raw reply or fails (a time-out is
  a failure). Its answer may depend on when it is asked, here the number of calls in the
  trace so far. A \<^verbatim>\<open>nil\<close> translator is \<open>None\<close>.
\<close>

type_synonym Translator = "nat \<Rightarrow> string \<Rightarrow> error + string"

definition Translate :: "Translator \<Rightarrow> string \<Rightarrow> world \<Rightarrow> (error + string) \<times> world" where
  "Translate t content w = (t (length (trace w)) content, emit (EvTranslate content) w)"

subsection \<open>utils/io.go\<close>

definition ReadFile :: "path \<Rightarrow> world \<Rightarrow> (error + string) \<times> world" where
  "ReadFile path w =
     (case os_ReadFile path w of
        (Inl err, w1) \<Rightarrow> (Inl (ReadFailed path (OSError err)), w1)
      | (Inr content, w1) \<Rightarrow> (Inr content, w1))"

definition WriteFile_write :: "path \<Rightarrow> string \<Rightarrow> world \<Rightarrow> error option \<times> world" where
  \<comment> \<open>the second half of \<^verbatim>\<open>WriteFile\<close>: the parent directories, then the file\<close>
  "WriteFile_write path content w =
     (let dir = butlast path in
      case os_MkdirAll dir w of
        (Some err, w1) \<Rightarrow> (Some (MkdirFailed dir (OSError err)), w1)
      | (None, w1) \<Rightarrow>
          (case os_WriteFile path content w1 of
             (Some err, w2) \<Rightarrow> (Some (WriteFailed path (OSError err)), w2)
           | (None, w2) \<Rightarrow> (None, w2)))"

definition WriteFile :: "path \<Rightarrow> string \<Rightarrow> bool \<Rightarrow> world \<Rightarrow> error option \<times> world" where
  "WriteFile path content overwrite w =
     (if \<not> overwrite then
        (case os_Stat path w of
           (None, w1) \<Rightarrow> (None, w1)
         | (Some err, w1) \<Rightarrow>
             if \<not> IsNotExist err then (Some (StatTargetFailed path (OSError err)), w1)
             else WriteFile_write path content w1)
      else WriteFile_write path content w)"

subsection \<open>processor: the worker pool\<close>

record Config =
  SourceDir :: path
  TargetDir :: path
  Concurrency :: int
  Overwrite :: bool
  DryRun :: bool

text \<open>The counters are \<^verbatim>\<open>int32\<close>: adding one wraps around.\<close>

record Stats =
  TotalFiles :: "32 word"
  Processed :: "32 word"
  Skipped :: "32 word"
  Failed :: "32 word"
  DryRunHits :: "32 word"

definition add_Processed :: "Stats \<Rightarrow> Stats" where
  "add_Processed stats = stats\<lparr>Processed := Processed stats + 1\<rparr>"

definition add_Skipped :: "Stats \<Rightarrow> Stats" where
  "add_Skipped stats = stats\<lparr>Skipped := Skipped stats + 1\<rparr>"

definition add_Failed :: "Stats \<Rightarrow> Stats" where
  "add_Failed stats = stats\<lparr>Failed := Failed stats + 1\<rparr>"

definition add_DryRunHits :: "Stats \<Rightarrow> Stats" where
  "add_DryRunHits stats = stats\<lparr>DryRunHits := DryRunHits stats + 1\<rparr>"

text \<open>
  The body of the worker's loop for one task, in the order of the source: the check of
  the target (\<open>skip_check\<close>, \<open>Some\<close> stats when the task ends there by
  \<^verbatim>\<open>continue\<close>), the read of the source and the dry-run exit (\<open>worker_task\<close>), the
  call of the backend (\<open>translate_task\<close>), and the extraction and the write
  (\<open>persist_translation\<close>).
\<close>

definition skip_check :: "Config \<Rightarrow> path \<Rightarrow> Stats \<times> world \<Rightarrow> Stats option \<times> world" where
  "skip_check cfg targetPath sw =
     (case sw of (stats, w) \<Rightarrow>
        if \<not> Overwrite cfg \<and> \<not> DryRun cfg then
          (case os_Stat targetPath w of
             (None, w1) \<Rightarrow> (Some (add_Skipped stats), w1)
           | (Some err, w1) \<Rightarrow>
               if \<not> IsNotExist err then (Some (add_Failed stats), w1) else (None, w1))
        else (None, w))"

definition persist_translation ::
  "Config \<Rightarrow> path \<Rightarrow> string \<Rightarrow> Stats \<times> world \<Rightarrow> Stats \<times> world" where
  "persist_translation cfg targetPath translatedRaw sw =
     (case sw of (stats, w3) \<Rightarrow>
        (case ExtractTranslation translatedRaw of
           Inl err \<Rightarrow> (add_Failed stats, w3)
         | Inr translatedContent \<Rightarrow>
             (case WriteFile targetPath translatedContent (Overwrite cfg) w3 of
                (Some err, w4) \<Rightarrow> (add_Failed stats, w4)
              | (None, w4) \<Rightarrow> (add_Processed stats, w4))))"

definition translate_task ::
  "Config \<Rightarrow> Translator option \<Rightarrow> path \<Rightarrow> string \<Rightarrow> Stats \<times> world \<Rightarrow> Stats \<times> world" where
  "translate_task cfg llmTrans targetPath content sw =
     (case sw of (stats, w2) \<Rightarrow>
        (case llmTrans of
           None \<Rightarrow> (add_Failed stats, w2)
         | Some t \<Rightarrow>
             (case Translate t content w2 of
                (Inl err, w3) \<Rightarrow> (add_Failed stats, w3)
              | (Inr translatedRaw, w3) \<Rightarrow>
                  persist_translation cfg targetPath translatedRaw (stats, w3))))"

definition worker_task ::
  "Config \<Rightarrow> Translator option \<Rightarrow> path \<Rightarrow> Stats \<times> world \<Rightarrow> Stats \<times> world" where
  "worker_task cfg llmTrans RelativePath sw =
     (let stats = fst sw;
          sourcePath = Join (SourceDir cfg) RelativePath;
          targetPath = Join (TargetDir cfg) RelativePath
      in case skip_check cfg targetPath sw of
           (Some stats', w1) \<Rightarrow> (stats', w1)
         | (None, w1) \<Rightarrow>
             (case ReadFile sourcePath w1 of
                (Inl err, w2) \<Rightarrow> (add_Failed stats, w2)
              | (Inr content, w2) \<Rightarrow>
                  if DryRun cfg then (add_DryRunHits stats, w2)
                  else translate_task cfg llmTrans targetPath content (stats, w2)))"

text \<open>
  The loop \<^verbatim>\<open>for task := range tasks\<close>, and the pool. The channel hands the tasks out
  in the order they were sent, each to one worker. The model runs each task to its end
  before the next one is taken, so one loop over the queue stands for all the workers,
  whatever their number. With \<open>Concurrency \<le> 0\<close> no worker is started: the tasks stay in
  the channel, the wait returns at once and the counters stay at zero.
\<close>

fun worker ::
  "Config \<Rightarrow> Translator option \<Rightarrow> path list \<Rightarrow> Stats \<times> world \<Rightarrow> Stats \<times> world" where
  "worker cfg llmTrans [] sw = sw"
| "worker cfg llmTrans (task # tasks) sw = worker cfg llmTrans tasks (worker_task cfg llmTrans task sw)"

definition initial_stats :: "path list \<Rightarrow> Stats" where
  \<comment> \<open>\<^verbatim>\<open>&Stats{TotalFiles: int32(numFiles)}\<close>: the conversion to \<^verbatim>\<open>int32\<close> truncates\<close>
  "initial_stats files =
     \<lparr>TotalFiles = of_nat (length files), Processed = 0, Skipped = 0, Failed = 0,
      DryRunHits = 0\<rparr>"

definition ProcessFiles ::
  "Config \<Rightarrow> path list \<Rightarrow> Translator option \<Rightarrow> world \<Rightarrow> Stats \<times> world" where
  "ProcessFiles cfg files llmTrans w =
     (let stats = initial_stats files
      in if 0 < Concurrency cfg then worker cfg llmTrans files (stats, w) else (stats, w))"

text \<open>
  The terminal classes of a task, and the class a step of the loop gave its task, read
  off the counter that moved.
\<close>

datatype terminal = Term_Processed | Term_Skipped | Term_Failed | Term_DryRun

fun count :: "terminal \<Rightarrow> Stats \<Rightarrow> Stats" where
  "count Term_Processed stats = add_Processed stats"
| "count Term_Skipped stats = add_Skipped stats"
| "count Term_Failed stats = add_Failed stats"
| "count Term_DryRun stats = add_DryRunHits stats"

definition classify :: "Stats \<Rightarrow> Stats \<Rightarrow> terminal" where
  "classify old new =
     (if Processed new \<noteq> Processed old then Term_Processed
      else if Skipped new \<noteq> Skipped old then Term_Skipped
      else if Failed new \<noteq> Failed old then Term_Failed
      else Term_DryRun)"


definition readable :: "Config \<Rightarrow> world \<Rightarrow> path \<Rightarrow> bool" where
  "readable cfg w RelativePath =
     (case fst (os_ReadFile (Join (SourceDir cfg) RelativePath) w) of
        Inl e \<Rightarrow> False | Inr content \<Rightarrow> True)"



definition quiet :: "world \<Rightarrow> world \<Rightarrow> bool" where
  "quiet w w' \<longleftrightarrow> (\<exists>evs. trace w' = trace w @ evs \<and> (\<forall>p. EvStat p \<notin> set evs))"

subsection \<open>discovery/finder.go\<close>

text \<open>
  What \<^verbatim>\<open>filepath.WalkDir\<close> meets under the source root: an entry that is not a
  directory (a regular file, a symbolic link, a device), or a directory with the error
  of \<^verbatim>\<open>os.ReadDir\<close> on it, if any, and the named entries that \<^verbatim>\<open>os.ReadDir\<close> returned.
  The root itself is either the error of \<^verbatim>\<open>os.Lstat\<close> on it or such a tree.
\<close>

datatype tree = TFile | TDir "errno option" "(string \<times> tree) list"

record DirEntry =
  Name :: string
  IsDir :: bool

text \<open>
  What the callback returns: \<^verbatim>\<open>nil\<close>, \<^verbatim>\<open>fs.SkipDir\<close> or another error. The call of a
  method on a \<^verbatim>\<open>nil\<close> entry panics; \<^verbatim>\<open>WalkDir\<close> never passes one without an error.
\<close>

datatype walk_result = Continue | SkipDir | Abort error | Panic

text \<open>
  \<^verbatim>\<open>strings.ToLower\<close> on the bytes of a name: the ASCII capitals are lowered. Other
  runes never turn into the ASCII characters of the suffix, so they are left alone.
  \<^verbatim>\<open>filepath.Rel\<close> of a path below the base is the rest of the path (the empty list
  stands for \<^verbatim>\<open>"."\<close>) and fails for a path that is not below the base.
\<close>

definition lower :: "char \<Rightarrow> char" where
  "lower c =
     (let n = (of_char c :: nat) in if 65 \<le> n \<and> n \<le> 90 then char_of (n + 32) else c)"

definition ToLower :: "string \<Rightarrow> string" where
  "ToLower s = map lower s"

definition HasSuffix :: "string \<Rightarrow> string \<Rightarrow> bool" where
  "HasSuffix s suf = suffix suf s"

definition Rel :: "path \<Rightarrow> path \<Rightarrow> error + path" where
  "Rel basepath targpath =
     (if prefix basepath targpath then Inr (drop (length basepath) targpath)
      else Inl (errorString ''Rel: can't make relative''))"

definition Base :: "path \<Rightarrow> string" where
  "Base p = (if p = [] then ''.'' else last p)"

text \<open>The function literal that \<open>FindMarkdownFiles\<close> hands to \<^verbatim>\<open>WalkDir\<close>; the
  slice \<open>files\<close> it appends to is passed through.\<close>

definition visit ::
  "path \<Rightarrow> path \<Rightarrow> DirEntry option \<Rightarrow> errno option \<Rightarrow> path list \<Rightarrow> walk_result \<times> path list"
  where
  "visit sourceDir path d walkErr files =
     (case walkErr of
        Some e \<Rightarrow>
          if path = sourceDir \<and> IsPermission e
          then (Abort (SourcePermission sourceDir (OSError e)), files)
          else
            (case d of
               None \<Rightarrow> (Continue, files)
             | Some de \<Rightarrow> if IsDir de then (SkipDir, files) else (Continue, files))
      | None \<Rightarrow>
          (case d of
             None \<Rightarrow> (Panic, files)
           | Some de \<Rightarrow>
               if \<not> IsDir de \<and> HasSuffix (ToLower (Name de)) ''.md'' then
                 (case Rel sourceDir path of
                    Inl err \<Rightarrow> (Continue, files)
                  | Inr relPath \<Rightarrow> (Continue, files @ [relPath]))
               else (Continue, files)))"

text \<open>
  \<^verbatim>\<open>filepath.WalkDir\<close>. \<open>walkDir\<close> visits a node: the callback first; for a directory
  then the error of reading it, reported by a second call, and its entries in order.
  \<^verbatim>\<open>SkipDir\<close> from a directory skips its entries; from another entry it ends the
  directory that holds it.
\<close>

type_synonym 'a WalkDirFunc =
  "path \<Rightarrow> DirEntry option \<Rightarrow> errno option \<Rightarrow> 'a \<Rightarrow> walk_result \<times> 'a"

fun walkDir :: "'a WalkDirFunc \<Rightarrow> path \<Rightarrow> string \<Rightarrow> tree \<Rightarrow> 'a \<Rightarrow> walk_result \<times> 'a"
  and walkEntries :: "'a WalkDirFunc \<Rightarrow> path \<Rightarrow> (string \<times> tree) list \<Rightarrow> 'a \<Rightarrow> walk_result \<times> 'a"
  where
  "walkDir fn path name TFile acc = fn path (Some \<lparr>Name = name, IsDir = False\<rparr>) None acc"
| "walkDir fn path name (TDir rderr dirs) acc =
     (let d = Some \<lparr>Name = name, IsDir = True\<rparr> in
      case fn path d None acc of
        (SkipDir, acc1) \<Rightarrow> (Continue, acc1)
      | (Continue, acc1) \<Rightarrow>
          (case rderr of
             None \<Rightarrow> walkEntries fn path dirs acc1
           | Some e \<Rightarrow>
               (case fn path d (Some e) acc1 of
                  (SkipDir, acc2) \<Rightarrow> (Continue, acc2)
                | (Continue, acc2) \<Rightarrow> walkEntries fn path dirs acc2
                | (err, acc2) \<Rightarrow> (err, acc2)))
      | (err, acc1) \<Rightarrow> (err, acc1))"
| "walkEntries fn path [] acc = (Continue, acc)"
| "walkEntries fn path (d1 # dirs) acc =
     (case walkDir fn (path @ [fst d1]) (fst d1) (snd d1) acc of
        (Continue, acc1) \<Rightarrow> walkEntries fn path dirs acc1
      | (SkipDir, acc1) \<Rightarrow> (Continue, acc1)
      | (err, acc1) \<Rightarrow> (err, acc1))"

definition WalkDir :: "path \<Rightarrow> errno + tree \<Rightarrow> 'a WalkDirFunc \<Rightarrow> 'a \<Rightarrow> walk_result \<times> 'a" where
  "WalkDir root node fn acc =
     (case (case node of
              Inl e \<Rightarrow> fn root None (Some e) acc
            | Inr t \<Rightarrow> walkDir fn root (Base root) t acc) of
        (SkipDir, acc') \<Rightarrow> (Continue, acc')
      | (err, acc') \<Rightarrow> (err, acc'))"

definition FindMarkdownFiles :: "path \<Rightarrow> errno + tree \<Rightarrow> error + path list" where
  "FindMarkdownFiles sourceDir node =
     (case WalkDir sourceDir node (visit sourceDir) [] of
        (Continue, files) \<Rightarrow> Inr files
      | (SkipDir, files) \<Rightarrow> Inr files
      | (Abort err, files) \<Rightarrow> Inl (DiscoveryFailed err)
      | (Panic, files) \<Rightarrow> Inl (DiscoveryFailed (errorString ''panic'')))"




subsection \<open>main: the exit status\<close>

text \<open>
  \<open>main\<close> from the loaded configuration on. The result of \<^verbatim>\<open>config.LoadConfig\<close> and
  that of \<^verbatim>\<open>translator.NewTranslator\<close> are given; \<^verbatim>\<open>log.Fatalf\<close> exits with status 1.
  The outcome is the exit status and the statistics that were reported, if the run got
  that far.
\<close>

record outcome =
  exit_status :: int
  report :: "Stats option"

definition main ::
  "error + Config \<Rightarrow> errno + tree \<Rightarrow> error + Translator \<Rightarrow> world \<Rightarrow> outcome" where
  "main loaded root made w =
     (case loaded of
        Inl err \<Rightarrow> \<lparr>exit_status = 1, report = None\<rparr>
      | Inr cfg \<Rightarrow>
          (case FindMarkdownFiles (SourceDir cfg) root of
             Inl err \<Rightarrow> \<lparr>exit_status = 1, report = None\<rparr>
           | Inr filesToProcess \<Rightarrow>
               if length filesToProcess = 0 then \<lparr>exit_status = 0, report = None\<rparr>
               else
                 (case (if \<not> DryRun cfg
                        then (case made of Inl err \<Rightarrow> Inl err | Inr t \<Rightarrow> Inr (Some t))
                        else Inr None) of
                    Inl err \<Rightarrow> \<lparr>exit_status = 1, report = None\<rparr>
                  | Inr llmTrans \<Rightarrow>
                      (let stats = fst (ProcessFiles cfg filesToProcess llmTrans w) in
                       if 0 <s Failed stats
                       then \<lparr>exit_status = 1, report = Some stats\<rparr>
                       else \<lparr>exit_status = 0, report = Some stats\<rparr>))))"

subsection \<open>Example inputs\<close>

text \<open>Small worlds and configurations on which the theorems below are run.\<close>

definition demo_world :: world where
  "demo_world =
     \<lparr>nodes = [[''src''] \<mapsto> Dir, [''src'', ''a.md''] \<mapsto> File ''hello'',
               [''src'', ''b.md''] \<mapsto> File ''bye'',
               [''out''] \<mapsto> Dir, [''out'', ''a.md''] \<mapsto> File ''old''],
      faults = (\<lambda>c p. if c = OpStat \<and> p = [''out'', ''locked.md''] then Some Denied
                       else if c = OpRead \<and> p = [''src'', ''b.md''] then Some Denied
                       else None),
      trace = []\<rparr>"

definition demo_cfg :: Config where
  "demo_cfg =
     \<lparr>SourceDir = [''src''], TargetDir = [''out''], Concurrency = 2, Overwrite = False,
      DryRun = False\<rparr>"

definition demo_files :: "path list" where
  "demo_files = [[''a.md''], [''b.md''], [''c.md'']]"

definition echo :: Translator where
  "echo = (\<lambda>n content. Inr (''ok <translate> '' @ content @ '' </translate> bye''))"

definition fresh_world :: world where
  "fresh_world =
     \<lparr>nodes = [[''src''] \<mapsto> Dir, [''src'', ''a.md''] \<mapsto> File ''hello'',
               [''src'', ''b.md''] \<mapsto> File ''bye'', [''src'', ''c.md''] \<mapsto> File ''x'',
               [''out''] \<mapsto> Dir],
      faults = (\<lambda>c p. None),
      trace = []\<rparr>"

definition dry_cfg :: Config where
  "dry_cfg = demo_cfg\<lparr>DryRun := True\<rparr>"

definition demo_tree :: tree where
  "demo_tree =
     TDir None
       [(''a.md'', TFile), (''b.md'', TFile), (''notes.txt'', TFile),
        (''locked'', TDir (Some EACCES) [(''hidden.md'', TFile)]),
        (''sub.md'', TDir None [(''C.MD'', TFile), (''d.markdown'', TFile)])]"





section \<open>Properties\<close>

subsection \<open>Extraction\<close>

subsubsection \<open>Properties of the match\<close>

lemma lazy_until_Some: "lazy_until lit s = Some g \<Longrightarrow> \<exists>r. s = g @ lit @ r"
proof (induction s arbitrary: g)
  case Nil
  then show ?case by (simp split: if_splits)
next
  case (Cons c cs)
  show ?case
  proof (cases "prefix lit (c # cs)")
    case True
    with Cons.prems show ?thesis by (auto simp: prefix_def)
  next
    case False
    with Cons.prems obtain g' where "lazy_until lit cs = Some g'" and "g = c # g'"
      by auto
    with Cons.IH show ?thesis by auto
  qed
qed

lemma lazy_until_None: "lazy_until lit s = None \<longleftrightarrow> \<not> sublist lit s"
  by (induction s) (auto simp: sublist_Cons_right)

text \<open>A literal whose first character occurs nowhere else in it cannot start inside
  a text and run into a following copy of itself.\<close>

lemma prefix_straddle:
  assumes pre: "prefix lit (p @ lit @ r)" and ne: "p \<noteq> []"
    and hd: "lit \<noteq> []" "hd lit \<notin> set (tl lit)"
  shows "prefix lit p"
proof (rule ccontr)
  assume np: "\<not> prefix lit p"
  from pre obtain z where z: "p @ lit @ r = lit @ z" by (auto simp: prefix_def)
  have len: "length p < length lit"
  proof (rule ccontr)
    assume "\<not> length p < length lit"
    then have "length lit \<le> length p" by simp
    with z have "prefix lit p"
      by (metis append_eq_append_conv_if prefixI append_take_drop_id)
    with np show False by contradiction
  qed
  from ne have pos: "0 < length p" by simp
  have "(p @ lit @ r) ! length p = hd lit"
    using hd(1) by (simp add: nth_append hd_conv_nth)
  moreover have "(lit @ z) ! length p = lit ! length p"
    using len by (simp add: nth_append)
  ultimately have "lit ! length p = hd lit" using z by simp
  moreover have "lit ! length p \<in> set (tl lit)"
  proof (cases lit)
    case Nil
    with hd(1) show ?thesis by simp
  next
    case (Cons a as)
    have "length p - 1 < length as" using len ne Cons by (cases p) simp_all
    then have "as ! (length p - 1) \<in> set as" by (rule nth_mem)
    with Cons pos show ?thesis by (simp add: nth_Cons')
  qed
  ultimately show False using hd(2) by simp
qed

lemma lazy_until_exact:
  assumes "\<not> sublist lit g" "lit \<noteq> []" "hd lit \<notin> set (tl lit)"
  shows "lazy_until lit (g @ lit @ r) = Some g"
  using assms(1)
proof (induction g)
  case Nil
  then show ?case using assms(2) by (cases lit) auto
next
  case (Cons c g)
  have "\<not> prefix lit ((c # g) @ lit @ r)"
  proof
    assume "prefix lit ((c # g) @ lit @ r)"
    then have "prefix lit (c # g)"
      using prefix_straddle assms(2,3) by blast
    then have "sublist lit (c # g)" by (rule prefix_imp_sublist)
    with Cons.prems show False by contradiction
  qed
  moreover have "\<not> sublist lit g" using Cons.prems by (simp add: sublist_Cons_right)
  ultimately show ?case using Cons.IH by simp
qed

lemma openTag_hd: "openTag \<noteq> []" "hd openTag \<notin> set (tl openTag)"
  by (simp_all add: openTag_def)

lemma closeTag_hd: "closeTag \<noteq> []" "hd closeTag \<notin> set (tl closeTag)"
  by (simp_all add: closeTag_def)

lemma match_at_cases:
  "match_at s = [] \<or> (\<exists>g. match_at s = [openTag @ g @ closeTag, g])"
  by (simp add: match_at_def split: option.splits)

lemma FindStringSubmatch_cases:
  "FindStringSubmatch s = [] \<or> (\<exists>g. FindStringSubmatch s = [openTag @ g @ closeTag, g])"
proof (induction s)
  case Nil
  show ?case using match_at_cases [of "[]"] by simp
next
  case (Cons c cs)
  then show ?case using match_at_cases [of "c # cs"] by (auto split: list.splits)
qed

lemma match_at_Nil_iff:
  "match_at s = [] \<longleftrightarrow> \<not> (\<exists>b c. s = openTag @ b @ closeTag @ c)"
proof (cases "prefix openTag s")
  case False
  then show ?thesis by (auto simp: match_at_def prefix_def)
next
  case True
  then obtain z where z: "s = openTag @ z" by (auto simp: prefix_def)
  have "lazy_until closeTag z = None \<longleftrightarrow> \<not> (\<exists>b c. z = b @ closeTag @ c)"
    by (simp add: lazy_until_None sublist_def)
  then show ?thesis
    using z by (cases "lazy_until closeTag z") (simp_all add: match_at_def)
qed

lemma has_marker_pair_step:
  "has_marker_pair (c # cs) \<longleftrightarrow>
     (\<exists>b d. c # cs = openTag @ b @ closeTag @ d) \<or> has_marker_pair cs"
proof
  assume "has_marker_pair (c # cs)"
  then obtain a b d where eq: "c # cs = a @ openTag @ b @ closeTag @ d"
    unfolding has_marker_pair_def by blast
  show "(\<exists>b d. c # cs = openTag @ b @ closeTag @ d) \<or> has_marker_pair cs"
  proof (cases a)
    case Nil
    with eq show ?thesis by auto
  next
    case (Cons x a')
    with eq have "cs = a' @ openTag @ b @ closeTag @ d" by simp
    then show ?thesis unfolding has_marker_pair_def by blast
  qed
next
  assume "(\<exists>b d. c # cs = openTag @ b @ closeTag @ d) \<or> has_marker_pair cs"
  then show "has_marker_pair (c # cs)"
  proof
    assume "\<exists>b d. c # cs = openTag @ b @ closeTag @ d"
    then obtain b d where "c # cs = [] @ openTag @ b @ closeTag @ d" by auto
    then show ?thesis unfolding has_marker_pair_def by blast
  next
    assume "has_marker_pair cs"
    then obtain a b d where "cs = a @ openTag @ b @ closeTag @ d"
      unfolding has_marker_pair_def by blast
    then have "c # cs = (c # a) @ openTag @ b @ closeTag @ d" by simp
    then show ?thesis unfolding has_marker_pair_def by blast
  qed
qed

lemma FindStringSubmatch_Nil_iff:
  "FindStringSubmatch s = [] \<longleftrightarrow> \<not> has_marker_pair s"
proof (induction s)
  case Nil
  show ?case by (simp add: match_at_Nil_iff has_marker_pair_def openTag_def)
next
  case (Cons c cs)
  have "has_marker_pair (c # cs) \<longleftrightarrow>
      (\<exists>b d. c # cs = openTag @ b @ closeTag @ d) \<or> has_marker_pair cs"
    by (rule has_marker_pair_step)
  moreover have "FindStringSubmatch (c # cs) = [] \<longleftrightarrow>
      match_at (c # cs) = [] \<and> FindStringSubmatch cs = []"
    by (simp split: list.splits)
  ultimately show ?case
    using Cons by (simp add: match_at_Nil_iff)
qed

lemma has_marker_pair_Cons:
  "c \<noteq> CHR ''<'' \<Longrightarrow> has_marker_pair (c # s) \<longleftrightarrow> has_marker_pair s"
  by (auto simp: has_marker_pair_step openTag_def)

lemma has_marker_pair_snoc:
  assumes "c \<noteq> CHR ''>''"
  shows "has_marker_pair (s @ [c]) \<longleftrightarrow> has_marker_pair s"
proof
  assume "has_marker_pair s"
  then show "has_marker_pair (s @ [c])"
    unfolding has_marker_pair_def by (metis append.assoc)
next
  assume "has_marker_pair (s @ [c])"
  then obtain a b d where eq: "s @ [c] = a @ openTag @ b @ closeTag @ d"
    unfolding has_marker_pair_def by blast
  show "has_marker_pair s"
  proof (cases d rule: rev_cases)
    case Nil
    with eq have "last (s @ [c]) = last closeTag"
      by (simp add: closeTag_def)
    with assms show ?thesis by (simp add: closeTag_def)
  next
    case (snoc d' x)
    with eq have "s @ [c] = (a @ openTag @ b @ closeTag @ d') @ [x]" by simp
    then have "s = a @ openTag @ b @ closeTag @ d'" by (simp only: append1_eq_conv)
    then show ?thesis unfolding has_marker_pair_def by blast
  qed
qed

lemma has_marker_pair_prepend:
  "CHR ''<'' \<notin> set w \<Longrightarrow> has_marker_pair (w @ s) \<longleftrightarrow> has_marker_pair s"
  by (induction w) (auto simp: has_marker_pair_Cons)

lemma has_marker_pair_append:
  "CHR ''>'' \<notin> set w \<Longrightarrow> has_marker_pair (s @ w) \<longleftrightarrow> has_marker_pair s"
proof (induction w rule: rev_induct)
  case Nil
  show ?case by simp
next
  case (snoc x xs)
  then have "has_marker_pair ((s @ xs) @ [x]) \<longleftrightarrow> has_marker_pair (s @ xs)"
    by (intro has_marker_pair_snoc) auto
  with snoc show ?case by simp
qed

lemma space_runes_no_angle:
  "w \<in> set space_runes \<Longrightarrow> CHR ''<'' \<notin> set w \<and> CHR ''>'' \<notin> set w"
  by (auto simp: space_runes_def)

lemma leading_space_split:
  assumes "leading_space s \<noteq> 0"
  shows "\<exists>w \<in> set space_runes. s = w @ drop (leading_space s) s"
proof -
  from assms obtain w where f: "find (\<lambda>w. prefix w s) space_runes = Some w"
    by (auto simp: leading_space_def split: option.splits)
  then have "w \<in> set space_runes" and "prefix w s"
    by (auto simp: find_Some_iff)
  moreover from f have "leading_space s = length w" by (simp add: leading_space_def)
  ultimately show ?thesis by (auto simp: prefix_def)
qed

lemma trailing_space_split:
  assumes "trailing_space s \<noteq> 0"
  shows "\<exists>w \<in> set space_runes. s = take (length s - trailing_space s) s @ w"
proof -
  from assms obtain w where f: "find (\<lambda>w. suffix w s) space_runes = Some w"
    by (auto simp: trailing_space_def split: option.splits)
  then have "w \<in> set space_runes" and "suffix w s"
    by (auto simp: find_Some_iff)
  moreover from f have "trailing_space s = length w" by (simp add: trailing_space_def)
  ultimately show ?thesis by (auto simp: suffix_def)
qed

lemma has_marker_pair_TrimLeft: "has_marker_pair (TrimLeft s) \<longleftrightarrow> has_marker_pair s"
proof (induction s rule: TrimLeft.induct)
  case (1 s)
  show ?case
  proof (cases "leading_space s = 0")
    case True
    then show ?thesis by (subst TrimLeft.simps) simp
  next
    case False
    then obtain w where w: "w \<in> set space_runes" "s = w @ drop (leading_space s) s"
      using leading_space_split by blast
    have "has_marker_pair (TrimLeft s) \<longleftrightarrow> has_marker_pair (TrimLeft (drop (leading_space s) s))"
      using False by (subst TrimLeft.simps) simp
    also have "\<dots> \<longleftrightarrow> has_marker_pair (drop (leading_space s) s)"
      using False by (intro "1.IH") simp_all
    also have "\<dots> \<longleftrightarrow> has_marker_pair (w @ drop (leading_space s) s)"
      using w(1) by (simp add: has_marker_pair_prepend space_runes_no_angle)
    finally show ?thesis using w(2) by simp
  qed
qed

lemma has_marker_pair_TrimRight: "has_marker_pair (TrimRight s) \<longleftrightarrow> has_marker_pair s"
proof (induction s rule: TrimRight.induct)
  case (1 s)
  show ?case
  proof (cases "trailing_space s = 0")
    case True
    then show ?thesis by (subst TrimRight.simps) simp
  next
    case False
    let ?t = "take (length s - trailing_space s) s"
    from False obtain w where w: "w \<in> set space_runes" "s = ?t @ w"
      using trailing_space_split by blast
    have "has_marker_pair (TrimRight s) \<longleftrightarrow> has_marker_pair (TrimRight ?t)"
      using False by (subst TrimRight.simps) simp
    also have "\<dots> \<longleftrightarrow> has_marker_pair ?t"
      using False by (intro "1.IH") simp_all
    also have "\<dots> \<longleftrightarrow> has_marker_pair (?t @ w)"
      using w(1) by (simp add: has_marker_pair_append space_runes_no_angle)
    finally show ?thesis using w(2) by simp
  qed
qed

lemma has_marker_pair_TrimSpace: "has_marker_pair (TrimSpace s) \<longleftrightarrow> has_marker_pair s"
  by (simp add: TrimSpace_def has_marker_pair_TrimLeft has_marker_pair_TrimRight)

lemma FindStringSubmatch_short_iff:
  "length (FindStringSubmatch s) < 2 \<longleftrightarrow> \<not> has_marker_pair s"
  using FindStringSubmatch_cases [of s] FindStringSubmatch_Nil_iff [of s] by auto

lemma FindStringSubmatch_exact:
  assumes "\<not> sublist openTag pre" "\<not> sublist closeTag X"
  shows "FindStringSubmatch (pre @ openTag @ X @ closeTag @ post) = [openTag @ X @ closeTag, X]"
  using assms(1)
proof (induction pre)
  case Nil
  have "lazy_until closeTag (X @ closeTag @ post) = Some X"
    using assms(2) closeTag_hd by (rule lazy_until_exact)
  then have m: "match_at (openTag @ X @ closeTag @ post) = [openTag @ X @ closeTag, X]"
    by (simp add: match_at_def)
  show ?case
  proof (cases "openTag @ X @ closeTag @ post")
    case Nil
    then show ?thesis by (simp add: openTag_def)
  next
    case (Cons c cs)
    with m show ?thesis by simp
  qed
next
  case (Cons c pre)
  have "\<not> prefix openTag ((c # pre) @ openTag @ X @ closeTag @ post)"
  proof
    assume "prefix openTag ((c # pre) @ openTag @ X @ closeTag @ post)"
    then have "prefix openTag (c # pre)"
      using prefix_straddle openTag_hd by blast
    then have "sublist openTag (c # pre)" by (rule prefix_imp_sublist)
    with Cons.prems show False by contradiction
  qed
  then have "match_at (c # pre @ openTag @ X @ closeTag @ post) = []"
    by (simp add: match_at_def)
  moreover have "\<not> sublist openTag pre" using Cons.prems by (simp add: sublist_Cons_right)
  ultimately show ?case using Cons.IH by simp
qed

lemma has_marker_pair_sublist: "has_marker_pair s \<Longrightarrow> sublist openTag s"
  unfolding has_marker_pair_def sublist_def by blast

lemma ExtractTranslation_no_pair:
  assumes "\<not> has_marker_pair s"
  shows "ExtractTranslation s =
    Inl (Errorf (errMsgText @ (if 300 < length s then take 300 s @ ''...'' else s)))"
proof -
  have "length (FindStringSubmatch s) < 2"
    using assms by (simp add: FindStringSubmatch_short_iff)
  moreover have "length (FindStringSubmatch (TrimSpace s)) < 2"
    using assms by (simp add: FindStringSubmatch_short_iff has_marker_pair_TrimSpace)
  ultimately show ?thesis by (simp add: ExtractTranslation_def)
qed

text \<open>
  The first half of the extraction contract holds of the code. When the wrapped text
  \<open>X\<close> is the first, non-greedy span (the text before the opening marker holds no
  opening marker and \<open>X\<close> holds no closing marker), extraction returns \<open>X\<close> with its
  leading and trailing white space removed.
\<close>

lemma ExtractTranslation_delimited:
  assumes "\<not> sublist openTag noise1" "\<not> sublist closeTag X"
  shows "ExtractTranslation (noise1 @ openTag @ X @ closeTag @ noise2) = Inr (TrimSpace X)"
proof -
  have "FindStringSubmatch (noise1 @ openTag @ X @ closeTag @ noise2)
      = [openTag @ X @ closeTag, X]"
    using assms by (rule FindStringSubmatch_exact)
  then show ?thesis by (simp add: ExtractTranslation_def)
qed

lemma ExtractTranslation_delimited_example:
  "ExtractTranslation (''x '' @ openTag @ '' hi '' @ closeTag @ ''y'') = Inr ''hi''"
  by code_simp

text \<open>
  The error. A format without \<^verbatim>\<open>%\<close> is rendered as it is, so for an input with no
  marker pair and no \<^verbatim>\<open>%\<close> the message is the message text followed by the preview:
  the raw output when it has at most 300 bytes, otherwise its first 300 bytes followed
  by three dots.
\<close>

lemma doPrintf_plain: "CHR ''%'' \<notin> set format \<Longrightarrow> doPrintf format = format"
  by (induction format) auto

lemma errMsgText_plain: "CHR ''%'' \<notin> set errMsgText"
  by (simp add: errMsgText_def)

lemma ExtractTranslation_plain_preview:
  assumes "\<not> has_marker_pair s" "CHR ''%'' \<notin> set s"
  shows "ExtractTranslation s =
    Inl (errorString (errMsgText @ (if 300 < length s then take 300 s @ ''...'' else s)))"
proof -
  have "CHR ''%'' \<notin> set (if 300 < length s then take 300 s @ ''...'' else s)"
    using assms(2) by (auto dest: in_set_takeD)
  then have "doPrintf (errMsgText @ (if 300 < length s then take 300 s @ ''...'' else s))
      = errMsgText @ (if 300 < length s then take 300 s @ ''...'' else s)"
    using errMsgText_plain by (intro doPrintf_plain) auto
  then show ?thesis
    using ExtractTranslation_no_pair [OF assms(1)] by (simp add: Errorf_def)
qed

text \<open>
  C4. The claim's second half fails on the code at a raw output that holds a \<^verbatim>\<open>%\<close>:
  text.go hands the finished message to \<^verbatim>\<open>fmt.Errorf\<close> as the format, so the preview
  is read as a format. For the raw output \<open>100% done\<close>, which holds no marker, the
  error's message ends in \<open>100%!d(MISSING)one\<close>: the preview of the raw output is not
  part of it.
\<close>

theorem ExtractTranslation_percent_preview:
  "\<not> has_marker_pair ''100% done''
   \<and> ExtractTranslation ''100% done''
       = Inl (errorString (errMsgText @ ''100%!d(MISSING)one''))
   \<and> \<not> sublist ''100% done'' (errMsgText @ ''100%!d(MISSING)one'')"
proof -
  have "\<not> sublist openTag ''100% done''" by code_simp
  then have "\<not> has_marker_pair ''100% done''"
    using has_marker_pair_sublist by blast
  moreover have "ExtractTranslation ''100% done''
       = Inl (errorString (errMsgText @ ''100%!d(MISSING)one''))"
    by code_simp
  moreover have "\<not> sublist ''100% done'' (errMsgText @ ''100%!d(MISSING)one'')"
    by code_simp
  ultimately show ?thesis by simp
qed

text \<open>
  C9. The retry on the trimmed input never changes the outcome: the expression matches
  the trimmed string exactly when it matches the raw one (\<^verbatim>\<open>len(matches) < 2\<close> holds
  for both or for neither), and \<open>ExtractTranslation\<close> equals the single-attempt
  version on every input.
\<close>

theorem trim_retry_redundant:
  "(length (FindStringSubmatch (TrimSpace s)) < 2 \<longleftrightarrow> length (FindStringSubmatch s) < 2)
   \<and> ExtractTranslation s = ExtractTranslation_once s"
proof
  show iff: "length (FindStringSubmatch (TrimSpace s)) < 2 \<longleftrightarrow>
      length (FindStringSubmatch s) < 2"
    by (simp add: FindStringSubmatch_short_iff has_marker_pair_TrimSpace)
  show "ExtractTranslation s = ExtractTranslation_once s"
    using iff by (simp add: ExtractTranslation_def ExtractTranslation_once_def Let_def)
qed

subsection \<open>The file system and \<open>WriteFile\<close>\<close>

subsubsection \<open>Facts about the calls\<close>

lemma emit_sel:
  "nodes (emit e w) = nodes w" "faults (emit e w) = faults w"
  "trace (emit e w) = trace w @ [e]"
  by (simp_all add: emit_def)

lemma os_Stat_snd: "snd (os_Stat p w) = emit (EvStat p) w"
  by (simp add: os_Stat_def)


lemma below_file_cong:
  assumes "nodes w' = nodes w"
  shows "below_file w' p = below_file w p"
  unfolding below_file_def is_file_def assms ..


lemma os_ReadFile_snd: "snd (os_ReadFile p w) = emit (EvRead p) w"
  by (simp add: os_ReadFile_def)

lemma ReadFile_snd: "snd (ReadFile p w) = emit (EvRead p) w"
  by (simp add: ReadFile_def os_ReadFile_def split: prod.splits sum.splits)

lemma ReadFile_fst:
  "fst (ReadFile p w) =
     (case fst (os_ReadFile p w) of Inl e \<Rightarrow> Inl (ReadFailed p (OSError e)) | Inr c \<Rightarrow> Inr c)"
  by (simp add: ReadFile_def split: prod.splits sum.splits)

lemma Translate_snd: "snd (Translate t c w) = emit (EvTranslate c) w"
  by (simp add: Translate_def)

lemma os_MkdirAll_sel:
  "faults (snd (os_MkdirAll d w)) = faults w"
  "trace (snd (os_MkdirAll d w)) = trace w @ [EvMkdirAll d]"
  by (simp_all add: os_MkdirAll_def Let_def emit_def split: option.splits)

lemma os_MkdirAll_ok:
  assumes "fst (os_MkdirAll d w) = None"
  shows "nodes (snd (os_MkdirAll d w)) = (\<lambda>q. if prefix q d then Some Dir else nodes w q)"
  using assms by (simp add: os_MkdirAll_def Let_def emit_def split: option.splits if_splits)

lemma os_MkdirAll_err:
  assumes "fst (os_MkdirAll d w) = Some e"
  shows "nodes (snd (os_MkdirAll d w)) = nodes w"
  using assms by (simp add: os_MkdirAll_def Let_def emit_def split: option.splits if_splits)


lemma os_WriteFile_sel:
  "faults (snd (os_WriteFile p c w)) = faults w"
  "trace (snd (os_WriteFile p c w)) = trace w @ [EvWrite p c]"
  by (simp_all add: os_WriteFile_def Let_def emit_def split: option.splits node.splits if_splits)

lemma os_WriteFile_ok:
  assumes "fst (os_WriteFile p c w) = None"
  shows "nodes (snd (os_WriteFile p c w)) = (nodes w)(p \<mapsto> File c)"
  using assms by (simp add: os_WriteFile_def Let_def emit_def split: option.splits node.splits if_splits)

lemma os_WriteFile_err:
  assumes "fst (os_WriteFile p c w) = Some e"
  shows "nodes (snd (os_WriteFile p c w)) = nodes w"
  using assms by (simp add: os_WriteFile_def Let_def emit_def split: option.splits node.splits if_splits)




subsubsection \<open>Facts about \<open>WriteFile\<close>\<close>

lemma WriteFile_write_fst:
  "fst (WriteFile_write path content w) =
     (case fst (os_MkdirAll (butlast path) w) of
        Some e \<Rightarrow> Some (MkdirFailed (butlast path) (OSError e))
      | None \<Rightarrow>
         (case fst (os_WriteFile path content (snd (os_MkdirAll (butlast path) w))) of
            Some e \<Rightarrow> Some (WriteFailed path (OSError e))
          | None \<Rightarrow> None))"
proof (cases "os_MkdirAll (butlast path) w")
  case (Pair r w1)
  then show ?thesis
    by (cases r; cases "os_WriteFile path content w1")
       (auto simp: WriteFile_write_def Let_def split: option.splits)
qed

lemma WriteFile_write_snd:
  "snd (WriteFile_write path content w) =
     (case fst (os_MkdirAll (butlast path) w) of
        Some e \<Rightarrow> snd (os_MkdirAll (butlast path) w)
      | None \<Rightarrow> snd (os_WriteFile path content (snd (os_MkdirAll (butlast path) w))))"
proof (cases "os_MkdirAll (butlast path) w")
  case (Pair r w1)
  then show ?thesis
    by (cases r; cases "os_WriteFile path content w1")
       (auto simp: WriteFile_write_def Let_def split: option.splits)
qed




lemma WriteFile_write_ok:
  assumes "fst (WriteFile_write path content w) = None"
  shows "nodes (snd (WriteFile_write path content w)) path = Some (File content)"
    and "\<forall>q. prefix q (butlast path) \<longrightarrow> nodes (snd (WriteFile_write path content w)) q = Some Dir"
proof -
  let ?d = "butlast path"
  let ?w1 = "snd (os_MkdirAll ?d w)"
  from assms have m: "fst (os_MkdirAll ?d w) = None"
    and wr: "fst (os_WriteFile path content ?w1) = None"
    by (auto simp: WriteFile_write_fst split: option.splits)
  have s: "snd (WriteFile_write path content w) = snd (os_WriteFile path content ?w1)"
    using m by (simp add: WriteFile_write_snd)
  have n: "nodes (snd (WriteFile_write path content w)) = (nodes ?w1)(path \<mapsto> File content)"
    using s os_WriteFile_ok [OF wr] by simp
  show "nodes (snd (WriteFile_write path content w)) path = Some (File content)"
    using n by simp
  have "\<not> prefix path ?d"
  proof
    assume "prefix path ?d"
    then have "length path \<le> length ?d" by (rule prefix_length_le)
    moreover from wr have "path \<noteq> []"
      using os_MkdirAll_ok [OF m]
      by (auto simp: os_WriteFile_def Let_def split: option.splits node.splits if_splits)
    ultimately show False by (cases path rule: rev_cases) simp_all
  qed
  then show "\<forall>q. prefix q ?d \<longrightarrow> nodes (snd (WriteFile_write path content w)) q = Some Dir"
    using n os_MkdirAll_ok [OF m] by auto
qed

lemma WriteFile_skip:
  assumes "\<not> overwrite" "fst (os_Stat path w) = None"
  shows "WriteFile path content overwrite w = (None, emit (EvStat path) w)"
  using assms by (simp add: WriteFile_def os_Stat_def split: prod.splits option.splits)

lemma WriteFile_stat_error:
  assumes "\<not> overwrite" "fst (os_Stat path w) = Some e" "\<not> IsNotExist e"
  shows "WriteFile path content overwrite w =
    (Some (StatTargetFailed path (OSError e)), emit (EvStat path) w)"
  using assms by (auto simp: WriteFile_def os_Stat_def split: prod.splits option.splits)

lemma WriteFile_proceeds:
  assumes "overwrite \<or> (\<exists>e. fst (os_Stat path w) = Some e \<and> IsNotExist e)"
  shows "WriteFile path content overwrite w =
    WriteFile_write path content (if overwrite then w else emit (EvStat path) w)"
  using assms by (auto simp: WriteFile_def os_Stat_def split: prod.splits option.splits)

lemma WriteFile_write_frame:
  assumes "fst (WriteFile_write path content w) = None"
    and "q \<noteq> path" "\<not> prefix q (butlast path)"
  shows "nodes (snd (WriteFile_write path content w)) q = nodes w q"
proof -
  let ?d = "butlast path"
  let ?w1 = "snd (os_MkdirAll ?d w)"
  from assms(1) have m: "fst (os_MkdirAll ?d w) = None"
    and wr: "fst (os_WriteFile path content ?w1) = None"
    by (auto simp: WriteFile_write_fst split: option.splits)
  have "snd (WriteFile_write path content w) = snd (os_WriteFile path content ?w1)"
    using m by (simp add: WriteFile_write_snd)
  then have "nodes (snd (WriteFile_write path content w)) = (nodes ?w1)(path \<mapsto> File content)"
    using os_WriteFile_ok [OF wr] by simp
  then show ?thesis
    using assms(2,3) os_MkdirAll_ok [OF m] by simp
qed

text \<open>
  C5. \<open>WriteFile path content overwrite\<close>: without overwrite, when \<^verbatim>\<open>os.Stat\<close> finds the
  path, the result is \<^verbatim>\<open>nil\<close>, no node changes and the only call made is that
  \<^verbatim>\<open>os.Stat\<close>; when \<^verbatim>\<open>os.Stat\<close> fails otherwise than with "does not exist", that error
  is returned, wrapped, and again nothing else is called or changed. In the remaining
  cases (overwrite, or the path does not exist) the result is \<^verbatim>\<open>nil\<close> exactly when
  both \<^verbatim>\<open>os.MkdirAll\<close> on the parent and \<^verbatim>\<open>os.WriteFile\<close> succeed, and then the path
  holds a file with exactly the new content, every prefix of the parent is a directory,
  and no other node has changed.
\<close>

theorem WriteFile_contract:
  "(\<not> overwrite \<and> fst (os_Stat path w) = None \<longrightarrow>
      fst (WriteFile path content overwrite w) = None
      \<and> nodes (snd (WriteFile path content overwrite w)) = nodes w
      \<and> trace (snd (WriteFile path content overwrite w)) = trace w @ [EvStat path])
   \<and> (\<not> overwrite \<and> fst (os_Stat path w) = Some e \<and> \<not> IsNotExist e \<longrightarrow>
      fst (WriteFile path content overwrite w) = Some (StatTargetFailed path (OSError e))
      \<and> nodes (snd (WriteFile path content overwrite w)) = nodes w
      \<and> trace (snd (WriteFile path content overwrite w)) = trace w @ [EvStat path])
   \<and> (overwrite \<or> (\<exists>e'. fst (os_Stat path w) = Some e' \<and> IsNotExist e') \<longrightarrow>
      (let w1 = (if overwrite then w else emit (EvStat path) w);
           mk = os_MkdirAll (butlast path) w1;
           wr = os_WriteFile path content (snd mk);
           w' = snd (WriteFile path content overwrite w)
       in (fst (WriteFile path content overwrite w) = None \<longleftrightarrow> fst mk = None \<and> fst wr = None)
          \<and> (fst (WriteFile path content overwrite w) = None \<longrightarrow>
               nodes w' path = Some (File content)
               \<and> (\<forall>q. prefix q (butlast path) \<longrightarrow> nodes w' q = Some Dir)
               \<and> (\<forall>q. q \<noteq> path \<and> \<not> prefix q (butlast path) \<longrightarrow> nodes w' q = nodes w q))))"
proof (intro conjI impI)
  assume "\<not> overwrite \<and> fst (os_Stat path w) = None"
  then have eq: "WriteFile path content overwrite w = (None, emit (EvStat path) w)"
    by (simp add: WriteFile_skip)
  show "fst (WriteFile path content overwrite w) = None"
    and "nodes (snd (WriteFile path content overwrite w)) = nodes w"
    and "trace (snd (WriteFile path content overwrite w)) = trace w @ [EvStat path]"
    by (simp_all add: eq emit_sel)
next
  assume "\<not> overwrite \<and> fst (os_Stat path w) = Some e \<and> \<not> IsNotExist e"
  then have eq: "WriteFile path content overwrite w =
      (Some (StatTargetFailed path (OSError e)), emit (EvStat path) w)"
    by (simp add: WriteFile_stat_error)
  show "fst (WriteFile path content overwrite w) = Some (StatTargetFailed path (OSError e))"
    and "nodes (snd (WriteFile path content overwrite w)) = nodes w"
    and "trace (snd (WriteFile path content overwrite w)) = trace w @ [EvStat path]"
    by (simp_all add: eq emit_sel)
next
  assume h: "overwrite \<or> (\<exists>e'. fst (os_Stat path w) = Some e' \<and> IsNotExist e')"
  define w1 where "w1 = (if overwrite then w else emit (EvStat path) w)"
  have eq: "WriteFile path content overwrite w = WriteFile_write path content w1"
    using h unfolding w1_def by (rule WriteFile_proceeds)
  have nodes1: "nodes w1 = nodes w" by (simp add: w1_def emit_sel)
  have a: "fst (WriteFile_write path content w1) = None \<longleftrightarrow>
      fst (os_MkdirAll (butlast path) w1) = None
      \<and> fst (os_WriteFile path content (snd (os_MkdirAll (butlast path) w1))) = None"
    by (simp add: WriteFile_write_fst split: option.splits)
  have b: "nodes (snd (WriteFile_write path content w1)) path = Some (File content)"
    and c: "\<forall>q. prefix q (butlast path) \<longrightarrow>
        nodes (snd (WriteFile_write path content w1)) q = Some Dir"
    and d: "\<forall>q. q \<noteq> path \<and> \<not> prefix q (butlast path) \<longrightarrow>
        nodes (snd (WriteFile_write path content w1)) q = nodes w q"
    if "fst (WriteFile_write path content w1) = None"
    using WriteFile_write_ok [OF that] WriteFile_write_frame [OF that] nodes1 by simp_all
  show "let w1 = (if overwrite then w else emit (EvStat path) w);
           mk = os_MkdirAll (butlast path) w1;
           wr = os_WriteFile path content (snd mk);
           w' = snd (WriteFile path content overwrite w)
       in (fst (WriteFile path content overwrite w) = None \<longleftrightarrow> fst mk = None \<and> fst wr = None)
          \<and> (fst (WriteFile path content overwrite w) = None \<longrightarrow>
               nodes w' path = Some (File content)
               \<and> (\<forall>q. prefix q (butlast path) \<longrightarrow> nodes w' q = Some Dir)
               \<and> (\<forall>q. q \<noteq> path \<and> \<not> prefix q (butlast path) \<longrightarrow> nodes w' q = nodes w q))"
    unfolding Let_def w1_def [symmetric] eq using a b c d by blast
qed

lemma demo_stat:
  "fst (os_Stat [''out'', ''a.md''] demo_world) = None"
  "fst (os_Stat [''out'', ''locked.md''] demo_world) = Some EACCES"
  "fst (os_Stat [''out'', ''sub'', ''c.md''] demo_world) = Some ENOENT"
  by (simp_all add: os_Stat_def below_file_def is_file_def demo_world_def)

theorem WriteFile_contract_witness:
  "fst (WriteFile [''out'', ''a.md''] ''new'' False demo_world) = None
   \<and> nodes (snd (WriteFile [''out'', ''a.md''] ''new'' False demo_world)) [''out'', ''a.md'']
       = Some (File ''old'')
   \<and> fst (WriteFile [''out'', ''locked.md''] ''new'' False demo_world)
       = Some (StatTargetFailed [''out'', ''locked.md''] (OSError EACCES))
   \<and> fst (WriteFile [''out'', ''sub'', ''c.md''] ''new'' False demo_world) = None
   \<and> nodes (snd (WriteFile [''out'', ''sub'', ''c.md''] ''new'' False demo_world))
        [''out'', ''sub'', ''c.md''] = Some (File ''new'')
   \<and> nodes (snd (WriteFile [''out'', ''sub'', ''c.md''] ''new'' False demo_world))
        [''out'', ''sub''] = Some Dir"
proof -
  have mk: "fst (os_MkdirAll [''out'', ''sub''] (emit (EvStat [''out'', ''sub'', ''c.md'']) demo_world))
      = None"
    by (simp add: os_MkdirAll_def Let_def emit_def demo_world_def is_file_def prefixes_snoc)
  have wr: "fst (os_WriteFile [''out'', ''sub'', ''c.md''] ''new''
      (snd (os_MkdirAll [''out'', ''sub''] (emit (EvStat [''out'', ''sub'', ''c.md'']) demo_world))))
      = None"
    by (simp add: os_WriteFile_def os_MkdirAll_def Let_def emit_def demo_world_def is_file_def
        below_file_def prefixes_snoc)
  have old: "nodes demo_world [''out'', ''a.md''] = Some (File ''old'')"
    by (simp add: demo_world_def)
  note c1 = WriteFile_contract [of False "[''out'', ''a.md'']" demo_world "''new''" EIO]
  note c2 = WriteFile_contract [of False "[''out'', ''locked.md'']" demo_world "''new''" EACCES]
  note c3 = WriteFile_contract [of False "[''out'', ''sub'', ''c.md'']" demo_world "''new''" EIO]
  show ?thesis
    using c1 c2 c3 demo_stat mk wr old
    by (simp add: IsNotExist_def Let_def)
qed

subsection \<open>The worker pool\<close>

subsubsection \<open>Facts about one task\<close>

lemma skip_check_unfold:
  "skip_check cfg p (stats, w) =
     (if \<not> Overwrite cfg \<and> \<not> DryRun cfg then
        (case fst (os_Stat p w) of
           None \<Rightarrow> (Some (add_Skipped stats), emit (EvStat p) w)
         | Some err \<Rightarrow>
             if \<not> IsNotExist err then (Some (add_Failed stats), emit (EvStat p) w)
             else (None, emit (EvStat p) w))
      else (None, w))"
  by (simp add: skip_check_def os_Stat_def split: option.splits)

lemma persist_translation_unfold:
  "persist_translation cfg p raw (stats, w) =
     (case ExtractTranslation raw of
        Inl err \<Rightarrow> (add_Failed stats, w)
      | Inr c \<Rightarrow>
          (if fst (WriteFile p c (Overwrite cfg) w) = None then add_Processed stats
           else add_Failed stats,
           snd (WriteFile p c (Overwrite cfg) w)))"
proof (cases "ExtractTranslation raw")
  case (Inl e)
  then show ?thesis by (simp add: persist_translation_def)
next
  case (Inr c)
  then show ?thesis
    by (cases "WriteFile p c (Overwrite cfg) w")
       (auto simp: persist_translation_def split: option.splits)
qed

lemma translate_task_unfold:
  "translate_task cfg llmTrans p content (stats, w) =
     (case llmTrans of
        None \<Rightarrow> (add_Failed stats, w)
      | Some t \<Rightarrow>
          (case t (length (trace w)) content of
             Inl err \<Rightarrow> (add_Failed stats, emit (EvTranslate content) w)
           | Inr raw \<Rightarrow> persist_translation cfg p raw (stats, emit (EvTranslate content) w)))"
  by (simp add: translate_task_def Translate_def split: option.splits sum.splits)

lemma worker_task_unfold:
  "worker_task cfg llmTrans task (stats, w) =
     (case skip_check cfg (Join (TargetDir cfg) task) (stats, w) of
        (Some stats', w1) \<Rightarrow> (stats', w1)
      | (None, w1) \<Rightarrow>
          (case fst (os_ReadFile (Join (SourceDir cfg) task) w1) of
             Inl err \<Rightarrow> (add_Failed stats, emit (EvRead (Join (SourceDir cfg) task)) w1)
           | Inr content \<Rightarrow>
               if DryRun cfg
               then (add_DryRunHits stats, emit (EvRead (Join (SourceDir cfg) task)) w1)
               else translate_task cfg llmTrans (Join (TargetDir cfg) task) content
                      (stats, emit (EvRead (Join (SourceDir cfg) task)) w1)))"
proof (cases "skip_check cfg (Join (TargetDir cfg) task) (stats, w)")
  case (Pair r w1)
  show ?thesis
  proof (cases r)
    case (Some s')
    with Pair show ?thesis by (simp add: worker_task_def)
  next
    case None
    with Pair show ?thesis
      by (simp add: worker_task_def ReadFile_def os_ReadFile_def
          split: option.splits node.splits)
  qed
qed

lemma persist_translation_terminal:
  "fst (persist_translation cfg p raw (stats, w)) \<in> {add_Processed stats, add_Failed stats}"
  by (simp add: persist_translation_unfold split: sum.splits)

lemma translate_task_terminal:
  "fst (translate_task cfg llmTrans p content (stats, w))
     \<in> {add_Processed stats, add_Failed stats}"
  using persist_translation_terminal
  by (simp add: translate_task_unfold split: option.splits sum.splits)

lemma worker_task_terminal:
  "fst (worker_task cfg llmTrans task sw) \<in>
     {add_Processed (fst sw), add_Skipped (fst sw), add_Failed (fst sw),
      add_DryRunHits (fst sw)}"
proof (cases sw)
  case (Pair stats w)
  show ?thesis
    unfolding Pair worker_task_unfold skip_check_unfold
    using translate_task_terminal [of cfg llmTrans "Join (TargetDir cfg) task" _ stats]
    by (auto split: option.splits sum.splits)
qed

lemma worker_task_count: "\<exists>t. fst (worker_task cfg llmTrans task sw) = count t (fst sw)"
proof -
  have "add_Processed (fst sw) = count Term_Processed (fst sw)"
    "add_Skipped (fst sw) = count Term_Skipped (fst sw)"
    "add_Failed (fst sw) = count Term_Failed (fst sw)"
    "add_DryRunHits (fst sw) = count Term_DryRun (fst sw)"
    by simp_all
  then show ?thesis
    using worker_task_terminal [of cfg llmTrans task sw] by (metis insertE singletonD)
qed

lemma classify_count: "classify stats (count t stats) = t"
  by (cases t)
     (simp_all add: classify_def add_Processed_def add_Skipped_def add_Failed_def
        add_DryRunHits_def)

lemma count_inject: "count t stats = count t' stats \<Longrightarrow> t = t'"
  by (metis classify_count)

lemma count_sum:
  "Processed (count t s) + Skipped (count t s) + Failed (count t s) + DryRunHits (count t s)
     = Processed s + Skipped s + Failed s + DryRunHits s + 1"
  "TotalFiles (count t s) = TotalFiles s"
  by (cases t; simp add: add_Processed_def add_Skipped_def add_Failed_def add_DryRunHits_def)+

lemma worker_sum:
  "Processed (fst (worker cfg llmTrans files sw)) + Skipped (fst (worker cfg llmTrans files sw))
     + Failed (fst (worker cfg llmTrans files sw)) + DryRunHits (fst (worker cfg llmTrans files sw))
   = Processed (fst sw) + Skipped (fst sw) + Failed (fst sw) + DryRunHits (fst sw)
     + of_nat (length files)
   \<and> TotalFiles (fst (worker cfg llmTrans files sw)) = TotalFiles (fst sw)"
proof (induction files arbitrary: sw)
  case Nil
  show ?case by simp
next
  case (Cons task files)
  obtain t where t: "fst (worker_task cfg llmTrans task sw) = count t (fst sw)"
    using worker_task_count by blast
  show ?case
    using Cons.IH [of "worker_task cfg llmTrans task sw"]
    by (simp add: t count_sum)
qed

text \<open>
  C1. Every step of the loop adds one to exactly one of the four terminal counters, and
  when the pool has a worker (\<open>Concurrency > 0\<close>, which the configuration loader
  enforces) the counters of the returned statistics add up to \<open>TotalFiles\<close>, in the
  arithmetic of \<^verbatim>\<open>int32\<close>.
\<close>

theorem terminal_counters_sum:
  "(\<exists>!t. fst (worker_task cfg llmTrans task (stats, w)) = count t stats)
   \<and> (0 < Concurrency cfg \<longrightarrow>
        Processed (fst (ProcessFiles cfg files llmTrans w))
        + Skipped (fst (ProcessFiles cfg files llmTrans w))
        + Failed (fst (ProcessFiles cfg files llmTrans w))
        + DryRunHits (fst (ProcessFiles cfg files llmTrans w))
        = TotalFiles (fst (ProcessFiles cfg files llmTrans w)))"
proof (intro conjI impI)
  obtain t where t: "fst (worker_task cfg llmTrans task (stats, w)) = count t stats"
    using worker_task_count [of cfg llmTrans task "(stats, w)"] by auto
  show "\<exists>!t. fst (worker_task cfg llmTrans task (stats, w)) = count t stats"
  proof (rule ex1I [of _ t])
    show "fst (worker_task cfg llmTrans task (stats, w)) = count t stats" by (rule t)
  next
    fix t'
    assume "fst (worker_task cfg llmTrans task (stats, w)) = count t' stats"
    with t have "count t' stats = count t stats" by simp
    then show "t' = t" by (rule count_inject)
  qed
next
  assume "0 < Concurrency cfg"
  then have "ProcessFiles cfg files llmTrans w = worker cfg llmTrans files (initial_stats files, w)"
    by (simp add: ProcessFiles_def)
  then show "Processed (fst (ProcessFiles cfg files llmTrans w))
        + Skipped (fst (ProcessFiles cfg files llmTrans w))
        + Failed (fst (ProcessFiles cfg files llmTrans w))
        + DryRunHits (fst (ProcessFiles cfg files llmTrans w))
        = TotalFiles (fst (ProcessFiles cfg files llmTrans w))"
    using worker_sum [of cfg llmTrans files "(initial_stats files, w)"]
    by (simp add: initial_stats_def)
qed

theorem terminal_counters_sum_witness:
  "0 < Concurrency demo_cfg
   \<and> (let st = fst (ProcessFiles demo_cfg demo_files (Some echo) demo_world)
      in Processed st + Skipped st + Failed st + DryRunHits st = TotalFiles st
         \<and> TotalFiles st = 3 \<and> Skipped st = 1 \<and> Failed st = 2)"
proof -
  have c: "0 < Concurrency demo_cfg" by (simp add: demo_cfg_def)
  have ev: "fst (ProcessFiles demo_cfg demo_files (Some echo) demo_world)
      = \<lparr>TotalFiles = 3, Processed = 0, Skipped = 1, Failed = 2, DryRunHits = 0\<rparr>"
    by code_simp
  have s: "TotalFiles (fst (ProcessFiles demo_cfg demo_files (Some echo) demo_world)) = 3"
      "Skipped (fst (ProcessFiles demo_cfg demo_files (Some echo) demo_world)) = 1"
      "Failed (fst (ProcessFiles demo_cfg demo_files (Some echo) demo_world)) = 2"
    by (simp_all add: ev)
  show ?thesis
    using terminal_counters_sum [of demo_cfg "Some echo" "[''a.md'']" "initial_stats demo_files"
        demo_world demo_files] c s
    by (simp add: Let_def)
qed


subsubsection \<open>What a task leaves in the world\<close>













lemma worker_task_skipped:
  assumes "\<not> Overwrite cfg" "\<not> DryRun cfg"
    and "fst (os_Stat (Join (TargetDir cfg) task) w) = None"
  shows "worker_task cfg llmTrans task (stats, w) =
    (add_Skipped stats, emit (EvStat (Join (TargetDir cfg) task)) w)"
  using assms by (simp add: worker_task_unfold skip_check_unfold)

lemma worker_task_stat_failed:
  assumes "\<not> Overwrite cfg" "\<not> DryRun cfg"
    and "fst (os_Stat (Join (TargetDir cfg) task) w) = Some e" "\<not> IsNotExist e"
  shows "worker_task cfg llmTrans task (stats, w) =
    (add_Failed stats, emit (EvStat (Join (TargetDir cfg) task)) w)"
  using assms by (simp add: worker_task_unfold skip_check_unfold)






















subsubsection \<open>The calls a task makes\<close>

lemma quiet_refl: "quiet w w"
  by (simp add: quiet_def)

lemma quiet_trans: "quiet w w' \<Longrightarrow> quiet w' w'' \<Longrightarrow> quiet w w''"
  by (auto simp: quiet_def)

lemma quiet_emit:
  "quiet w (emit (EvRead p) w)" "quiet w (emit (EvTranslate c) w)"
  by (simp_all add: quiet_def emit_sel)

lemma quiet_WriteFile_write: "quiet w (snd (WriteFile_write p c w))"
  by (simp add: quiet_def WriteFile_write_snd os_MkdirAll_sel os_WriteFile_sel
      split: option.splits)

lemma quiet_persist_translation:
  assumes "Overwrite cfg"
  shows "quiet w (snd (persist_translation cfg p raw (stats, w)))"
  using assms
  by (simp add: persist_translation_unfold WriteFile_def quiet_refl quiet_WriteFile_write
      split: sum.splits)

lemma quiet_translate_task:
  assumes "Overwrite cfg"
  shows "quiet w (snd (translate_task cfg llmTrans p content (stats, w)))"
proof -
  have "quiet w (snd (persist_translation cfg p raw (stats, emit (EvTranslate content) w)))"
    for raw
    by (rule quiet_trans [OF quiet_emit(2) quiet_persist_translation [OF assms]])
  then show ?thesis
    by (simp add: translate_task_unfold quiet_refl quiet_emit split: option.splits sum.splits)
qed

lemma quiet_worker_task:
  assumes "Overwrite cfg \<or> DryRun cfg"
  shows "quiet w (snd (worker_task cfg llmTrans task (stats, w)))"
proof -
  have t: "quiet w (snd (translate_task cfg llmTrans p content (stats, emit (EvRead q) w)))"
    if "Overwrite cfg" for p q content
    by (rule quiet_trans [OF quiet_emit(1) quiet_translate_task [OF that]])
  show ?thesis
    using assms
    by (auto simp: worker_task_unfold skip_check_unfold quiet_emit t
        split: option.splits sum.splits)
qed

text \<open>
  C2. Without overwrite and outside dry-run: when \<^verbatim>\<open>os.Stat\<close> finds the target, the task
  adds one to Skipped, and when \<^verbatim>\<open>os.Stat\<close> fails otherwise than with "does not exist",
  it adds one to Failed; in both cases the only call made is that \<^verbatim>\<open>os.Stat\<close> (no read
  of the source, no call of the backend) and no node changes. With overwrite or in
  dry-run, the calls the task makes hold no \<^verbatim>\<open>os.Stat\<close> at all.
\<close>

theorem skip_check_behaviour:
  "(\<not> Overwrite cfg \<and> \<not> DryRun cfg \<and> fst (os_Stat (Join (TargetDir cfg) task) w) = None \<longrightarrow>
      fst (worker_task cfg llmTrans task (stats, w)) = add_Skipped stats
      \<and> nodes (snd (worker_task cfg llmTrans task (stats, w))) = nodes w
      \<and> trace (snd (worker_task cfg llmTrans task (stats, w)))
          = trace w @ [EvStat (Join (TargetDir cfg) task)])
   \<and> (\<not> Overwrite cfg \<and> \<not> DryRun cfg
       \<and> fst (os_Stat (Join (TargetDir cfg) task) w) = Some e \<and> \<not> IsNotExist e \<longrightarrow>
      fst (worker_task cfg llmTrans task (stats, w)) = add_Failed stats
      \<and> nodes (snd (worker_task cfg llmTrans task (stats, w))) = nodes w
      \<and> trace (snd (worker_task cfg llmTrans task (stats, w)))
          = trace w @ [EvStat (Join (TargetDir cfg) task)])
   \<and> (Overwrite cfg \<or> DryRun cfg \<longrightarrow>
      (\<exists>evs. trace (snd (worker_task cfg llmTrans task (stats, w))) = trace w @ evs
             \<and> (\<forall>p. EvStat p \<notin> set evs)))"
proof (intro conjI impI)
  assume h: "\<not> Overwrite cfg \<and> \<not> DryRun cfg
      \<and> fst (os_Stat (Join (TargetDir cfg) task) w) = None"
  then have eq: "worker_task cfg llmTrans task (stats, w)
      = (add_Skipped stats, emit (EvStat (Join (TargetDir cfg) task)) w)"
    by (simp add: worker_task_skipped)
  show "fst (worker_task cfg llmTrans task (stats, w)) = add_Skipped stats"
    and "nodes (snd (worker_task cfg llmTrans task (stats, w))) = nodes w"
    and "trace (snd (worker_task cfg llmTrans task (stats, w)))
          = trace w @ [EvStat (Join (TargetDir cfg) task)]"
    by (simp_all add: eq emit_sel)
next
  assume h: "\<not> Overwrite cfg \<and> \<not> DryRun cfg
      \<and> fst (os_Stat (Join (TargetDir cfg) task) w) = Some e \<and> \<not> IsNotExist e"
  then have eq: "worker_task cfg llmTrans task (stats, w)
      = (add_Failed stats, emit (EvStat (Join (TargetDir cfg) task)) w)"
    by (simp add: worker_task_stat_failed)
  show "fst (worker_task cfg llmTrans task (stats, w)) = add_Failed stats"
    and "nodes (snd (worker_task cfg llmTrans task (stats, w))) = nodes w"
    and "trace (snd (worker_task cfg llmTrans task (stats, w)))
          = trace w @ [EvStat (Join (TargetDir cfg) task)]"
    by (simp_all add: eq emit_sel)
next
  assume "Overwrite cfg \<or> DryRun cfg"
  then have "quiet w (snd (worker_task cfg llmTrans task (stats, w)))"
    by (rule quiet_worker_task)
  then show "\<exists>evs. trace (snd (worker_task cfg llmTrans task (stats, w))) = trace w @ evs
      \<and> (\<forall>p. EvStat p \<notin> set evs)"
    by (simp add: quiet_def)
qed

theorem skip_check_behaviour_witness:
  "fst (worker_task demo_cfg (Some echo) [''a.md''] (initial_stats demo_files, demo_world))
     = add_Skipped (initial_stats demo_files)
   \<and> trace (snd (worker_task demo_cfg (Some echo) [''a.md''] (initial_stats demo_files, demo_world)))
     = [EvStat [''out'', ''a.md'']]
   \<and> fst (worker_task demo_cfg (Some echo) [''locked.md''] (initial_stats demo_files, demo_world))
     = add_Failed (initial_stats demo_files)
   \<and> trace (snd (worker_task demo_cfg (Some echo) [''locked.md'']
        (initial_stats demo_files, demo_world)))
     = [EvStat [''out'', ''locked.md'']]
   \<and> (\<exists>evs. trace (snd (worker_task (demo_cfg\<lparr>Overwrite := True\<rparr>) (Some echo) [''a.md'']
               (initial_stats demo_files, demo_world))) = trace demo_world @ evs
            \<and> (\<forall>p. EvStat p \<notin> set evs))"
proof -
  have j: "Join (TargetDir demo_cfg) [''a.md''] = [''out'', ''a.md'']"
    "Join (TargetDir demo_cfg) [''locked.md''] = [''out'', ''locked.md'']"
    "Join (TargetDir (demo_cfg\<lparr>Overwrite := True\<rparr>)) [''a.md''] = [''out'', ''a.md'']"
    by (simp_all add: demo_cfg_def Join_def)
  have c: "\<not> Overwrite demo_cfg" "\<not> DryRun demo_cfg" "Overwrite (demo_cfg\<lparr>Overwrite := True\<rparr>)"
    by (simp_all add: demo_cfg_def)
  have t: "trace demo_world = []" by (simp add: demo_world_def)
  note a = skip_check_behaviour [of demo_cfg "[''a.md'']" demo_world "Some echo"
      "initial_stats demo_files" EIO]
  note b = skip_check_behaviour [of demo_cfg "[''locked.md'']" demo_world "Some echo"
      "initial_stats demo_files" EACCES]
  note d = skip_check_behaviour [of "demo_cfg\<lparr>Overwrite := True\<rparr>" "[''a.md'']" demo_world
      "Some echo" "initial_stats demo_files" EIO]
  show ?thesis
    using a b d c demo_stat
    by (simp add: j t IsNotExist_def)
qed

subsubsection \<open>Dry-run\<close>

lemma os_ReadFile_emit: "fst (os_ReadFile p (emit e w)) = fst (os_ReadFile p w)"
  unfolding os_ReadFile_def fst_conv emit_sel below_file_cong [OF emit_sel(1)] ..

lemma readable_emit: "readable cfg (emit e w) task = readable cfg w task"
  by (simp add: readable_def os_ReadFile_emit)

lemma worker_task_dry_run:
  assumes "DryRun cfg"
  shows "worker_task cfg llmTrans task (stats, w) =
    (if readable cfg w task then add_DryRunHits stats else add_Failed stats,
     emit (EvRead (Join (SourceDir cfg) task)) w)"
  using assms
  by (simp add: worker_task_unfold skip_check_unfold readable_def split: sum.splits)

lemma worker_dry_run:
  assumes "DryRun cfg"
  shows "fst (worker cfg llmTrans files (stats, w)) =
      stats\<lparr>Failed := Failed stats + of_nat (length (filter (\<lambda>t. \<not> readable cfg w t) files)),
            DryRunHits := DryRunHits stats + of_nat (length (filter (readable cfg w) files))\<rparr>
    \<and> nodes (snd (worker cfg llmTrans files (stats, w))) = nodes w
    \<and> trace (snd (worker cfg llmTrans files (stats, w)))
        = trace w @ map (\<lambda>task. EvRead (Join (SourceDir cfg) task)) files"
proof (induction files arbitrary: stats w)
  case Nil
  show ?case by simp
next
  case (Cons task files)
  let ?w' = "emit (EvRead (Join (SourceDir cfg) task)) w"
  let ?s' = "if readable cfg w task then add_DryRunHits stats else add_Failed stats"
  have step: "worker_task cfg llmTrans task (stats, w) = (?s', ?w')"
    using assms by (rule worker_task_dry_run)
  have r: "readable cfg ?w' = readable cfg w"
    by (rule ext) (simp add: readable_emit)
  show ?case
    using Cons.IH [of ?s' ?w']
    by (simp add: step r emit_sel add_DryRunHits_def add_Failed_def add.assoc)
qed

text \<open>
  C3 (as amended). In dry-run mode with at least one worker, the run changes no node and
  its only calls are one read of each task's source, in queue order: no backend call, no
  directory made, no file written. A task whose source can be read is counted in
  DryRunHits, a task whose source cannot be read is counted in Failed, and nothing is
  counted in Processed or Skipped; so DryRunHits is TotalFiles minus Failed.
\<close>

theorem dry_run_effects:
  "DryRun cfg \<and> 0 < Concurrency cfg \<longrightarrow>
     nodes (snd (ProcessFiles cfg files llmTrans w)) = nodes w
     \<and> trace (snd (ProcessFiles cfg files llmTrans w))
         = trace w @ map (\<lambda>task. EvRead (Join (SourceDir cfg) task)) files
     \<and> DryRunHits (fst (ProcessFiles cfg files llmTrans w))
         = of_nat (length (filter (readable cfg w) files))
     \<and> Failed (fst (ProcessFiles cfg files llmTrans w))
         = of_nat (length (filter (\<lambda>t. \<not> readable cfg w t) files))
     \<and> Processed (fst (ProcessFiles cfg files llmTrans w)) = 0
     \<and> Skipped (fst (ProcessFiles cfg files llmTrans w)) = 0
     \<and> DryRunHits (fst (ProcessFiles cfg files llmTrans w))
         = TotalFiles (fst (ProcessFiles cfg files llmTrans w))
           - Failed (fst (ProcessFiles cfg files llmTrans w))"
proof
  assume h: "DryRun cfg \<and> 0 < Concurrency cfg"
  then have eq: "ProcessFiles cfg files llmTrans w
      = worker cfg llmTrans files (initial_stats files, w)"
    by (simp add: ProcessFiles_def)
  from h have d: "DryRun cfg" by simp
  have len: "length (filter (readable cfg w) files)
      + length (filter (\<lambda>t. \<not> readable cfg w t) files) = length files"
    by (rule sum_length_filter_compl)
  have tot: "(of_nat (length files) :: 32 word)
      = of_nat (length (filter (readable cfg w) files))
        + of_nat (length (filter (\<lambda>t. \<not> readable cfg w t) files))"
    by (simp only: len [symmetric] of_nat_add)
  show "nodes (snd (ProcessFiles cfg files llmTrans w)) = nodes w
     \<and> trace (snd (ProcessFiles cfg files llmTrans w))
         = trace w @ map (\<lambda>task. EvRead (Join (SourceDir cfg) task)) files
     \<and> DryRunHits (fst (ProcessFiles cfg files llmTrans w))
         = of_nat (length (filter (readable cfg w) files))
     \<and> Failed (fst (ProcessFiles cfg files llmTrans w))
         = of_nat (length (filter (\<lambda>t. \<not> readable cfg w t) files))
     \<and> Processed (fst (ProcessFiles cfg files llmTrans w)) = 0
     \<and> Skipped (fst (ProcessFiles cfg files llmTrans w)) = 0
     \<and> DryRunHits (fst (ProcessFiles cfg files llmTrans w))
         = TotalFiles (fst (ProcessFiles cfg files llmTrans w))
           - Failed (fst (ProcessFiles cfg files llmTrans w))"
    unfolding eq
    using worker_dry_run [OF d, of llmTrans files "initial_stats files" w]
    by (simp add: initial_stats_def tot)
qed

theorem dry_run_effects_witness:
  "DryRun dry_cfg \<and> 0 < Concurrency dry_cfg
   \<and> nodes (snd (ProcessFiles dry_cfg demo_files None demo_world)) = nodes demo_world
   \<and> trace (snd (ProcessFiles dry_cfg demo_files None demo_world))
       = [EvRead [''src'', ''a.md''], EvRead [''src'', ''b.md''], EvRead [''src'', ''c.md'']]
   \<and> DryRunHits (fst (ProcessFiles dry_cfg demo_files None demo_world)) = 1
   \<and> Failed (fst (ProcessFiles dry_cfg demo_files None demo_world)) = 2"
proof -
  have c: "DryRun dry_cfg" "0 < Concurrency dry_cfg"
    by (simp_all add: dry_cfg_def demo_cfg_def)
  have r: "readable dry_cfg demo_world [''a.md'']" "\<not> readable dry_cfg demo_world [''b.md'']"
    "\<not> readable dry_cfg demo_world [''c.md'']"
    by (simp_all add: readable_def os_ReadFile_def below_file_def is_file_def dry_cfg_def
        demo_cfg_def demo_world_def Join_def)
  have s: "SourceDir dry_cfg = [''src'']" by (simp add: dry_cfg_def demo_cfg_def)
  have t: "trace demo_world = []" by (simp add: demo_world_def)
  show ?thesis
    using dry_run_effects [of dry_cfg demo_files None demo_world] c
    by (simp add: demo_files_def r s t Join_def)
qed

text \<open>
  C3 as stated fails: the source is read before the dry-run exit, so a task whose source
  cannot be read is counted in Failed. In the example world \<open>b.md\<close> is listed but its
  read is denied and \<open>c.md\<close> is gone: of three discovered tasks only one is a dry-run
  hit.
\<close>

theorem dry_run_unreadable_counterexample:
  "DryRun dry_cfg
   \<and> fst (ProcessFiles dry_cfg demo_files None demo_world)
     = \<lparr>TotalFiles = 3, Processed = 0, Skipped = 0, Failed = 2, DryRunHits = 1\<rparr>"
  by code_simp

subsection \<open>Discovery\<close>



lemma visit_dir:
  "visit src path (Some \<lparr>Name = name, IsDir = True\<rparr>) None acc = (Continue, acc)"
  by (simp add: visit_def)

lemma visit_dir_error:
  assumes "path \<noteq> src \<or> \<not> IsPermission e"
  shows "visit src path (Some \<lparr>Name = name, IsDir = True\<rparr>) (Some e) acc = (SkipDir, acc)"
  using assms by (auto simp: visit_def)

lemma visit_root_denied:
  assumes "IsPermission e"
  shows "visit src src d (Some e) acc = (Abort (SourcePermission src (OSError e)), acc)"
  using assms by (simp add: visit_def)












lemma FindMarkdownFiles_root_unreadable:
  "FindMarkdownFiles src (Inr (TDir (Some e) dirs)) =
     (if IsPermission e then Inl (DiscoveryFailed (SourcePermission src (OSError e)))
      else Inr [])"
  by (simp add: FindMarkdownFiles_def WalkDir_def visit_dir visit_dir_error visit_root_denied)

lemma FindMarkdownFiles_root_error:
  "FindMarkdownFiles src (Inl e) =
     (if IsPermission e then Inl (DiscoveryFailed (SourcePermission src (OSError e)))
      else Inr [])"
  by (simp add: FindMarkdownFiles_def WalkDir_def visit_def)





text \<open>
  C10. When \<^verbatim>\<open>os.Lstat\<close> on the source root fails with an error that is not a permission
  error (the root does not exist, for one), or the root cannot be read for such a
  reason, discovery returns the empty list and no error, and \<open>main\<close> then ends with
  status 0 without processing anything.
\<close>

theorem missing_root_yields_nothing:
  "\<not> IsPermission e \<longrightarrow>
     FindMarkdownFiles src (Inl e) = Inr []
     \<and> FindMarkdownFiles src (Inr (TDir (Some e) dirs)) = Inr []
     \<and> (SourceDir cfg = src \<longrightarrow>
          main (Inr cfg) (Inl e) made w = \<lparr>exit_status = 0, report = None\<rparr>)"
  by (simp add: FindMarkdownFiles_root_error FindMarkdownFiles_root_unreadable main_def)

theorem missing_root_yields_nothing_witness:
  "\<not> IsPermission ENOENT
   \<and> FindMarkdownFiles [''src''] (Inl ENOENT) = Inr []
   \<and> FindMarkdownFiles [''src''] (Inr (TDir (Some EIO) [(''a.md'', TFile)])) = Inr []
   \<and> main (Inr demo_cfg) (Inl ENOENT) (Inr echo) demo_world = \<lparr>exit_status = 0, report = None\<rparr>"
proof -
  have p: "\<not> IsPermission ENOENT" "\<not> IsPermission EIO" by (simp_all add: IsPermission_def)
  have s: "SourceDir demo_cfg = [''src'']" by (simp add: demo_cfg_def)
  show ?thesis
    using missing_root_yields_nothing [of ENOENT "[''src'']" "[]" demo_cfg "Inr echo" demo_world]
      missing_root_yields_nothing [of EIO "[''src'']" "[(''a.md'', TFile)]" demo_cfg "Inr echo"
        demo_world] p s
    by simp
qed

subsection \<open>The exit status\<close>

lemma main_report:
  assumes "report (main loaded root made w) = Some st"
  shows "\<exists>cfg files llmTrans. loaded = Inr cfg
    \<and> FindMarkdownFiles (SourceDir cfg) root = Inr files
    \<and> st = fst (ProcessFiles cfg files llmTrans w)
    \<and> exit_status (main loaded root made w) = (if 0 <s Failed st then 1 else 0)"
proof (cases loaded)
  case (Inl err)
  with assms show ?thesis by (simp add: main_def)
next
  case (Inr cfg)
  show ?thesis
  proof (cases "FindMarkdownFiles (SourceDir cfg) root")
    case (Inl err)
    with assms Inr show ?thesis by (simp add: main_def)
  next
    case found: (Inr files)
    show ?thesis
    proof (cases "DryRun cfg")
      case True
      with assms Inr found show ?thesis
        by (auto simp: main_def Let_def split: if_splits)
    next
      case False
      with assms Inr found show ?thesis
        by (cases made) (auto simp: main_def Let_def split: if_splits)
    qed
  qed
qed

text \<open>
  C7. When \<open>main\<close> gets as far as reporting statistics, these are the statistics that
  \<open>ProcessFiles\<close> returned for the discovered files, and the exit status is not zero
  exactly when their Failed counter, read as an \<^verbatim>\<open>int32\<close>, is greater than zero; with
  no failure the status is zero, in dry-run as well.
\<close>

theorem exit_status_reflects_failures:
  "report (main loaded root made w) = Some st \<longrightarrow>
     (\<exists>cfg files llmTrans. loaded = Inr cfg
        \<and> FindMarkdownFiles (SourceDir cfg) root = Inr files
        \<and> st = fst (ProcessFiles cfg files llmTrans w))
     \<and> (exit_status (main loaded root made w) \<noteq> 0 \<longleftrightarrow> 0 <s Failed st)
     \<and> (Failed st = 0 \<longrightarrow> exit_status (main loaded root made w) = 0)"
proof
  assume "report (main loaded root made w) = Some st"
  from main_report [OF this]
  show "(\<exists>cfg files llmTrans. loaded = Inr cfg
        \<and> FindMarkdownFiles (SourceDir cfg) root = Inr files
        \<and> st = fst (ProcessFiles cfg files llmTrans w))
     \<and> (exit_status (main loaded root made w) \<noteq> 0 \<longleftrightarrow> 0 <s Failed st)
     \<and> (Failed st = 0 \<longrightarrow> exit_status (main loaded root made w) = 0)"
    by (auto split: if_splits)
qed

theorem exit_status_reflects_failures_witness:
  "main (Inr demo_cfg) (Inr demo_tree) (Inr echo) demo_world
     = \<lparr>exit_status = 1,
        report = Some \<lparr>TotalFiles = 3, Processed = 0, Skipped = 1, Failed = 2,
                       DryRunHits = 0\<rparr>\<rparr>
   \<and> main (Inr dry_cfg) (Inr (TDir None [(''a.md'', TFile), (''c.md'', TFile)])) (Inr echo)
       fresh_world
     = \<lparr>exit_status = 0,
        report = Some \<lparr>TotalFiles = 2, Processed = 0, Skipped = 0, Failed = 0,
                       DryRunHits = 2\<rparr>\<rparr>"
proof -
  have a: "main (Inr demo_cfg) (Inr demo_tree) (Inr echo) demo_world
     = \<lparr>exit_status = 1,
        report = Some \<lparr>TotalFiles = 3, Processed = 0, Skipped = 1, Failed = 2,
                       DryRunHits = 0\<rparr>\<rparr>"
    by code_simp
  have b: "main (Inr dry_cfg) (Inr (TDir None [(''a.md'', TFile), (''c.md'', TFile)])) (Inr echo)
       fresh_world
     = \<lparr>exit_status = 0,
        report = Some \<lparr>TotalFiles = 2, Processed = 0, Skipped = 0, Failed = 0,
                       DryRunHits = 2\<rparr>\<rparr>"
    by code_simp
  show ?thesis
    using exit_status_reflects_failures [of "Inr demo_cfg" "Inr demo_tree" "Inr echo" demo_world
        "\<lparr>TotalFiles = 3, Processed = 0, Skipped = 1, Failed = 2, DryRunHits = 0\<rparr>"]
      exit_status_reflects_failures [of "Inr dry_cfg"
        "Inr (TDir None [(''a.md'', TFile), (''c.md'', TFile)])" "Inr echo" fresh_world
        "\<lparr>TotalFiles = 2, Processed = 0, Skipped = 0, Failed = 0, DryRunHits = 2\<rparr>"]
      a b
    by simp
qed

end
